theory Spec2Isabelle
  imports Complex_Main "HOL-Library.Word"
begin

unbundle bit_operations_syntax

section \<open>Values of the ns-3 interface used by scratch/aodv.cc\<close>

text \<open>
  The script \<^verbatim>\<open>scratch/aodv.cc\<close> is a driver: class \<^verbatim>\<open>AodvExample\<close> holds five
  parameters and three containers, and its methods call the ns-3 library. The methods are
  embedded as functions on a record of the object's members together with the library
  state they change. Fatal library errors and out-of-range container accesses are values
  of type \<open>error\<close>; a method that ends the process this way returns the error together
  with the state as it was at that moment.
\<close>

type_synonym uint32 = "32 word"
type_synonym Ipv4Address = "32 word"
type_synonym Vector = "real \<times> real"

datatype error =
    CommandLineExit
  | ConfigurationFailed
  | IndexOutOfRange
  | AddressOverflow
  | DivisionByZero
  | InvalidAttribute

text \<open>
  An \<^verbatim>\<open>Address\<close> is either an IPv4 socket address (address and port), the only kind
  \<^verbatim>\<open>InetSocketAddress::IsMatchingType\<close> accepts and \<^verbatim>\<open>ConvertFrom\<close> converts, or an
  address of any other type. A test with \<^verbatim>\<open>IsMatchingType\<close> followed by
  \<^verbatim>\<open>ConvertFrom\<close> and \<^verbatim>\<open>GetIpv4\<close> is a case distinction on the constructor.
\<close>

datatype Address = InetSocketAddress Ipv4Address nat | OtherAddress

text \<open>
  What is written to an output stream is kept as the sequence of values inserted with
  \<^verbatim>\<open><<\<close>: string literals, doubles, unsigned integers and IPv4 addresses. One line of
  output is one list of such items.
\<close>

datatype item = Str string | Dbl real | UInt nat | Ip Ipv4Address

type_synonym line = "item list"

record Node =
  node_id :: nat
  node_name :: string
  mobility :: "Vector option"
  routing :: "string option"

record NetDevice =
  dev_node :: nat
  mac_type :: string
  data_mode :: string

record Socket =
  sock_node :: nat
  sock_factory :: string
  sock_local :: "(Ipv4Address \<times> nat) option"
  recv_callback :: "string option"
  rx_queue :: "Address list"

record OnOffApplication =
  app_node :: nat
  app_protocol :: string
  OnTime :: real
  OffTime :: real
  Remote :: Address
  StartTime :: "real option"
  StopTime :: "real option"

text \<open>
  The library calls whose order matters, as made: the three calls that open a socket on a
  node (lines 245--247) and the calls to the simulator.
\<close>

datatype call =
    CreateSocket nat string
  | Bind nat Ipv4Address nat
  | SetRecvCallback nat string
  | Simulator_Stop real
  | Simulator_Run
  | Simulator_Destroy

text \<open>
  The first eight fields are the members of class \<^verbatim>\<open>AodvExample\<close> (lines 69--87);
  \<open>size\<close> is written \<open>size_cfg\<close>. The remaining fields are the library state the
  methods write: the seed, the sockets and applications of the nodes, the capture prefix,
  the scheduled routing-table prints (time, node, file), the connected trace paths, the
  calls made to sockets and to the simulator in order, and the lines written to
  \<^verbatim>\<open>std::cout\<close>.
\<close>

record AodvExample =
  size_cfg :: uint32
  step :: real
  totalTime :: real
  pcap :: bool
  printRoutes :: bool
  nodes :: "Node list"
  devices :: "NetDevice list"
  interfaces :: "(nat \<times> Ipv4Address) list"
  rng_seed :: nat
  sockets :: "Socket list"
  applications :: "OnOffApplication list"
  pcap_prefix :: "string option"
  routing_prints :: "(real \<times> nat \<times> string) list"
  trace_sinks :: "(string \<times> string) list"
  calls :: "call list"
  cout :: "line list"

section \<open>Construction\<close>

text \<open>The constructor, lines 115--122; the containers and the library state start empty.\<close>

definition AodvExample_new :: AodvExample where
  "AodvExample_new =
     \<lparr> size_cfg = 10, step = 100, totalTime = 100, pcap = False, printRoutes = True,
       nodes = [], devices = [], interfaces = [], rng_seed = 1, sockets = [],
       applications = [], pcap_prefix = None, routing_prints = [], trace_sinks = [],
       calls = [], cout = [] \<rparr>"

section \<open>CreateNodes\<close>

text \<open>Decimal digits of an unsigned integer, as \<^verbatim>\<open>os << i\<close> writes them.\<close>

fun dec :: "nat \<Rightarrow> string" where
  "dec n = (if n < 10 then [char_of (48 + n)] else dec (n div 10) @ [char_of (48 + n mod 10)])"

record GridPositionAllocator =
  MinX :: real
  MinY :: real
  DeltaX :: real
  DeltaY :: real
  GridWidth :: uint32
  LayoutType :: string

text \<open>
  Modelled from the spec: \<^verbatim>\<open>ns3::GridPositionAllocator\<close> is library code that is not
  part of the script. The spec places node \<open>i\<close> at \<open>((i mod W)\<cdot>D, (i div W)\<cdot>D)\<close> in
  row-major order for a row width \<open>W\<close>; the allocator's attributes give the origin and a
  spacing per axis. A row width of zero would divide by zero.
\<close>

definition GridPosition :: "GridPositionAllocator \<Rightarrow> nat \<Rightarrow> error + Vector" where
  "GridPosition g i =
     (if LayoutType g \<noteq> ''RowFirst'' then Inl InvalidAttribute
      else if unat (GridWidth g) = 0 then Inl DivisionByZero
      else Inr (MinX g + DeltaX g * real (i mod unat (GridWidth g)),
                MinY g + DeltaY g * real (i div unat (GridWidth g))))"

text \<open>
  Modelled from the spec: \<^verbatim>\<open>MobilityHelper::Install\<close> gives each node of the container,
  in order, a constant position: the allocator's next one. \<open>cur\<close> is the allocator's
  running index. On an error the nodes are returned as far as they were placed.
\<close>

fun MobilityHelper_Install ::
  "GridPositionAllocator \<Rightarrow> nat \<Rightarrow> Node list \<Rightarrow> (error \<times> Node list) + Node list" where
  "MobilityHelper_Install g cur [] = Inr []"
| "MobilityHelper_Install g cur (n # ns) =
     (case GridPosition g cur of
        Inl e \<Rightarrow> Inl (e, n # ns)
      | Inr p \<Rightarrow>
          (case MobilityHelper_Install g (Suc cur) ns of
             Inl (e, rest) \<Rightarrow> Inl (e, n\<lparr>mobility := Some p\<rparr> # rest)
           | Inr ns' \<Rightarrow> Inr (n\<lparr>mobility := Some p\<rparr> # ns')))"

text \<open>\<^verbatim>\<open>nodes.Create (size)\<close>: \<open>n\<close> new nodes, numbered from the first free id.\<close>

definition NodeContainer_Create :: "nat \<Rightarrow> Node list \<Rightarrow> Node list" where
  "NodeContainer_Create n ns =
     ns @ map (\<lambda>k. \<lparr>node_id = length ns + k, node_name = [], mobility = None, routing = None\<rparr>) [0..<n]"

text \<open>
  \<^verbatim>\<open>nodes.Get (i)\<close>: the container is a \<^verbatim>\<open>std::vector\<close> read with \<^verbatim>\<open>operator[]\<close>; an
  index beyond its size is undefined behaviour in C++ and an error here.
\<close>

definition NodeContainer_Get :: "Node list \<Rightarrow> nat \<Rightarrow> error + Node" where
  "NodeContainer_Get ns i = (if i < length ns then Inr (ns ! i) else Inl IndexOutOfRange)"

text \<open>
  The loop of lines 170--175, \<^verbatim>\<open>Names::Add ("node-" + i, nodes.Get (i))\<close>: \<open>k\<close> rounds
  from index \<open>i\<close> on.
\<close>

fun name_nodes :: "nat \<Rightarrow> nat \<Rightarrow> Node list \<Rightarrow> (error \<times> Node list) + Node list" where
  "name_nodes 0 i ns = Inr ns"
| "name_nodes (Suc k) i ns =
     (case NodeContainer_Get ns i of
        Inl e \<Rightarrow> Inl (e, ns)
      | Inr n \<Rightarrow> name_nodes k (Suc i) (ns[i := n\<lparr>node_name := ''node-'' @ dec i\<rparr>]))"

text \<open>Lines 164--187.\<close>

definition CreateNodes :: "AodvExample \<Rightarrow> (error \<times> AodvExample) + AodvExample" where
  "CreateNodes t =
     (let t1 = t\<lparr>cout := cout t @
                  [[Str ''Creating '', UInt (unat (size_cfg t)), Str '' nodes '',
                    Dbl (step t), Str '' m apart.'']]\<rparr>;
          t2 = t1\<lparr>nodes := NodeContainer_Create (unat (size_cfg t1)) (nodes t1)\<rparr>
      in case name_nodes (unat (size_cfg t2)) 0 (nodes t2) of
           Inl (e, ns) \<Rightarrow> Inl (e, t2\<lparr>nodes := ns\<rparr>)
         | Inr named \<Rightarrow>
             (let grid = \<lparr>MinX = 0, MinY = 0, DeltaX = step t2, DeltaY = 0,
                          GridWidth = size_cfg t2, LayoutType = ''RowFirst''\<rparr>
              in case MobilityHelper_Install grid 0 named of
                   Inl (e, ns) \<Rightarrow> Inl (e, t2\<lparr>nodes := ns\<rparr>)
                 | Inr placed \<Rightarrow> Inr (t2\<lparr>nodes := placed\<rparr>)))"

section \<open>Configure\<close>

text \<open>
  Modelled from the spec: \<^verbatim>\<open>CommandLine::Parse\<close> is library code. The command line is
  taken as already split into flags, each a registered name with a value. The script
  registers \<open>pcap\<close> and \<open>printRoutes\<close> (booleans), \<open>size\<close> (unsigned), \<open>time\<close> and
  \<open>step\<close> (doubles), lines 133--137. Configuration is fatal on error: a name that is not
  registered, or a value of the wrong type, ends the process inside the parser.
\<close>

datatype flag_value = BoolFlag bool | UintFlag uint32 | DoubleFlag real

type_synonym argv = "(string \<times> flag_value) list"

fun CommandLine_handle :: "AodvExample \<Rightarrow> string \<times> flag_value \<Rightarrow> error + AodvExample" where
  "CommandLine_handle t (name, v) =
     (if name = ''pcap'' then
        (case v of BoolFlag b \<Rightarrow> Inr (t\<lparr>pcap := b\<rparr>) | _ \<Rightarrow> Inl CommandLineExit)
      else if name = ''printRoutes'' then
        (case v of BoolFlag b \<Rightarrow> Inr (t\<lparr>printRoutes := b\<rparr>) | _ \<Rightarrow> Inl CommandLineExit)
      else if name = ''size'' then
        (case v of UintFlag n \<Rightarrow> Inr (t\<lparr>size_cfg := n\<rparr>) | _ \<Rightarrow> Inl CommandLineExit)
      else if name = ''time'' then
        (case v of DoubleFlag d \<Rightarrow> Inr (t\<lparr>totalTime := d\<rparr>) | _ \<Rightarrow> Inl CommandLineExit)
      else if name = ''step'' then
        (case v of DoubleFlag d \<Rightarrow> Inr (t\<lparr>step := d\<rparr>) | _ \<Rightarrow> Inl CommandLineExit)
      else Inl CommandLineExit)"

fun CommandLine_Parse :: "argv \<Rightarrow> AodvExample \<Rightarrow> (error \<times> AodvExample) + AodvExample" where
  "CommandLine_Parse [] t = Inr t"
| "CommandLine_Parse (a # as) t =
     (case CommandLine_handle t a of
        Inl e \<Rightarrow> Inl (e, t)
      | Inr t' \<Rightarrow> CommandLine_Parse as t')"

text \<open>
  Lines 124--141: the seed is set, the five parameters are registered and the command
  line is parsed; the method then returns \<^verbatim>\<open>true\<close>, whatever was parsed.
\<close>

definition Configure :: "argv \<Rightarrow> AodvExample \<Rightarrow> (error \<times> AodvExample) + (bool \<times> AodvExample)" where
  "Configure args t =
     (case CommandLine_Parse args (t\<lparr>rng_seed := 12345\<rparr>) of
        Inl x \<Rightarrow> Inl x
      | Inr t' \<Rightarrow> Inr (True, t'))"

section \<open>CreateDevices\<close>

text \<open>
  Lines 189--205: one ad-hoc wifi device per node of the container, all on one channel,
  at a constant rate; with \<open>pcap\<close> set, capture is enabled under the prefix \<open>aodv\<close>.
\<close>

definition CreateDevices :: "AodvExample \<Rightarrow> AodvExample" where
  "CreateDevices t =
     (let t1 = t\<lparr>devices :=
                 map (\<lambda>n. \<lparr>dev_node = node_id n, mac_type = ''ns3::AdhocWifiMac'',
                            data_mode = ''OfdmRate6Mbps''\<rparr>) (nodes t)\<rparr>
      in if pcap t1 then t1\<lparr>pcap_prefix := Some ''aodv''\<rparr> else t1)"

section \<open>InstallInternetStack\<close>

record Ipv4AddressHelper =
  network :: Ipv4Address
  netmask :: Ipv4Address
  address :: nat

text \<open>
  Modelled from the spec: \<^verbatim>\<open>Ipv4AddressHelper\<close> is library code. Each device is given
  the next address of the configured subnet; the script's header shows them as 10.0.0.1,
  10.0.0.2, ... Host numbers start at 1 and end before the subnet's broadcast address;
  installation fails fatally when the pool is exhausted.
\<close>

definition SetBase :: "Ipv4Address \<Rightarrow> Ipv4Address \<Rightarrow> Ipv4AddressHelper" where
  "SetBase net m = \<lparr>network = net, netmask = m, address = 1\<rparr>"

definition NewAddress :: "Ipv4AddressHelper \<Rightarrow> error + (Ipv4Address \<times> Ipv4AddressHelper)" where
  "NewAddress h =
     (if unat (NOT (netmask h)) - 1 < address h then Inl AddressOverflow
      else Inr (network h OR word_of_nat (address h), h\<lparr>address := Suc (address h)\<rparr>))"

fun Assign :: "Ipv4AddressHelper \<Rightarrow> NetDevice list \<Rightarrow> error + (nat \<times> Ipv4Address) list" where
  "Assign h [] = Inr []"
| "Assign h (d # ds) =
     (case NewAddress h of
        Inl e \<Rightarrow> Inl e
      | Inr (a, h') \<Rightarrow>
          (case Assign h' ds of
             Inl e \<Rightarrow> Inl e
           | Inr rest \<Rightarrow> Inr ((dev_node d, a) # rest)))"

text \<open>\<^verbatim>\<open>Ipv4Mask::IsMatch\<close>: two addresses agree on the bits of the mask.\<close>

definition IsMatch :: "Ipv4Address \<Rightarrow> Ipv4Address \<Rightarrow> Ipv4Address \<Rightarrow> bool" where
  "IsMatch m a b = (a AND m = b AND m)"

text \<open>
  Modelled from the spec: \<^verbatim>\<open>PrintRoutingTableAllAt\<close> is library code; it schedules, for
  the given time, one print per node into the given stream (one section per node).
\<close>

definition PrintRoutingTableAllAt :: "real \<Rightarrow> string \<Rightarrow> Node list \<Rightarrow> (real \<times> nat \<times> string) list" where
  "PrintRoutingTableAllAt tm file ns = map (\<lambda>n. (tm, node_id n, file)) ns"

text \<open>
  Lines 207--224: the stack with AODV routing is installed on every node, the devices get
  their addresses from 10.0.0.0/255.0.0.0, and with \<open>printRoutes\<close> set the routing tables
  are printed to \<open>aodv.routes\<close> at 8 seconds.
\<close>

definition InstallInternetStack :: "AodvExample \<Rightarrow> (error \<times> AodvExample) + AodvExample" where
  "InstallInternetStack t =
     (let t1 = t\<lparr>nodes := map (\<lambda>n. n\<lparr>routing := Some ''ns3::aodv::RoutingProtocol''\<rparr>) (nodes t)\<rparr>
      in case Assign (SetBase 0x0A000000 0xFF000000) (devices t1) of
           Inl e \<Rightarrow> Inl (e, t1)
         | Inr ifs \<Rightarrow>
             (let t2 = t1\<lparr>interfaces := ifs\<rparr>
              in if printRoutes t2
                 then Inr (t2\<lparr>routing_prints := routing_prints t2 @
                                PrintRoutingTableAllAt 8 ''aodv.routes'' (nodes t2)\<rparr>)
                 else Inr t2))"

section \<open>InstallApplications\<close>

text \<open>
  \<^verbatim>\<open>interfaces.GetAddress (i)\<close> reads a \<^verbatim>\<open>std::vector\<close> with \<^verbatim>\<open>operator[]\<close>, as
  \<^verbatim>\<open>nodes.Get (i)\<close> does.
\<close>

definition GetAddress :: "(nat \<times> Ipv4Address) list \<Rightarrow> nat \<Rightarrow> error + Ipv4Address" where
  "GetAddress ifs i = (if i < length ifs then Inr (snd (ifs ! i)) else Inl IndexOutOfRange)"

text \<open>
  Modelled from the spec: \<^verbatim>\<open>UniformRandomVariable::GetValue (min, max)\<close> is library
  code; it maps the next number \<open>u\<close> of its stream, drawn from \<open>[0, 1)\<close>, into
  \<open>[min, max)\<close>.
\<close>

definition GetValue :: "real \<Rightarrow> real \<Rightarrow> real \<Rightarrow> real" where
  "GetValue lo hi u = lo + u * (hi - lo)"

text \<open>
  Lines 245--247: a UDP socket on the node, bound to port 80 of any address
  (\<^verbatim>\<open>Ipv4Address::GetAny ()\<close> is 0.0.0.0), with the receive callback set.
\<close>

definition recvSink :: "Node \<Rightarrow> Socket" where
  "recvSink n =
     \<lparr>sock_node = node_id n, sock_factory = ''ns3::UdpSocketFactory'',
      sock_local = Some (0, 80),
      recv_callback = Some ''AodvExample::ReceiveRoutingPacket'', rx_queue = []\<rparr>"

definition recvSink_calls :: "Node \<Rightarrow> call list" where
  "recvSink_calls n =
     [CreateSocket (node_id n) ''ns3::UdpSocketFactory'',
      Bind (node_id n) 0 80,
      SetRecvCallback (node_id n) ''AodvExample::ReceiveRoutingPacket'']"

text \<open>
  Lines 226--277. The loop of lines 243--248 runs over \<^verbatim>\<open>nodes.GetN ()\<close>, so every
  \<^verbatim>\<open>nodes.Get (i)\<close> in it is in range. \<^verbatim>\<open>size - 1\<close> is unsigned 32-bit arithmetic.
  \<open>u\<close> is the number the random stream (stream 2) yields. The last three lines stop the simulator
  at \<open>totalTime\<close>, run it and destroy it; the event loop is library code, and the model
  records the calls.
\<close>

definition InstallApplications :: "real \<Rightarrow> AodvExample \<Rightarrow> (error \<times> AodvExample) + AodvExample" where
  "InstallApplications u t =
     (let t1 = t\<lparr>sockets := sockets t @ map recvSink (nodes t),
                 calls := calls t @ concat (map recvSink_calls (nodes t))\<rparr>
      in case GetAddress (interfaces t1) (unat (size_cfg t1 - 1)) of
           Inl e \<Rightarrow> Inl (e, t1)
         | Inr a \<Rightarrow>
             (case NodeContainer_Get (nodes t1) 0 of
                Inl e \<Rightarrow> Inl (e, t1)
              | Inr n0 \<Rightarrow>
                  (let onoff1 = \<lparr>app_node = node_id n0, app_protocol = ''ns3::UdpSocketFactory'',
                                 OnTime = 1, OffTime = 0, Remote = InetSocketAddress a 80,
                                 StartTime = Some (GetValue 1 2 u), StopTime = Some 10\<rparr>;
                       t2 = t1\<lparr>applications := applications t1 @ [onoff1]\<rparr>;
                       t3 = t2\<lparr>trace_sinks := trace_sinks t2 @
                                  [(''/NodeList/*/ApplicationList/*/$ns3::OnOffApplication/TxWithAddresses'',
                                    ''AodvExample::OnOffTrace'')]\<rparr>
                   in Inr (t3\<lparr>calls := calls t3 @
                                  [Simulator_Stop (totalTime t3), Simulator_Run, Simulator_Destroy]\<rparr>))))"

section \<open>Run, Report and main\<close>

text \<open>Lines 143--157.\<close>

definition Run :: "real \<Rightarrow> AodvExample \<Rightarrow> (error \<times> AodvExample) + AodvExample" where
  "Run u t =
     (case CreateNodes t of
        Inl x \<Rightarrow> Inl x
      | Inr t1 \<Rightarrow>
          (case InstallInternetStack (CreateDevices t1) of
             Inl x \<Rightarrow> Inl x
           | Inr t2 \<Rightarrow>
               (case InstallApplications u t2 of
                  Inl x \<Rightarrow> Inl x
                | Inr t3 \<Rightarrow>
                    Inr (t3\<lparr>cout := cout t3 @
                               [[Str ''Starting simulation for '', Dbl (totalTime t3), Str '' s ...'']],
                             calls := calls t3 @
                               [Simulator_Stop (totalTime t3), Simulator_Run, Simulator_Destroy]\<rparr>))))"

text \<open>Lines 159--162: the report is empty.\<close>

definition Report :: "AodvExample \<Rightarrow> AodvExample" where
  "Report t = t"

text \<open>
  Lines 103--112. The result is the exit code with the final state, or the error that
  ended the process with the state at that moment.
\<close>

definition main :: "argv \<Rightarrow> real \<Rightarrow> (error \<times> AodvExample) + (int \<times> AodvExample)" where
  "main args u =
     (case Configure args AodvExample_new of
        Inl x \<Rightarrow> Inl x
      | Inr (ok, test) \<Rightarrow>
          if \<not> ok then Inl (ConfigurationFailed, test)
          else (case Run u test of
                  Inl x \<Rightarrow> Inl x
                | Inr test' \<Rightarrow> Inr (0, Report test')))"

section \<open>Trace callbacks\<close>

text \<open>
  Lines 287--306. \<open>now\<close> is \<^verbatim>\<open>Simulator::Now ().GetSeconds ()\<close>; the context string and
  the packet are not used. The line goes to the log stream at once.
\<close>

definition OnOffTrace :: "real \<Rightarrow> Address \<Rightarrow> Address \<Rightarrow> line list \<Rightarrow> line list" where
  "OnOffTrace now source dest out =
     (let oss = [Dbl now, Str '' source ''];
          oss1 = (case source of
                    InetSocketAddress a p \<Rightarrow> oss @ [Ip a, Str '' send to dest '']
                  | OtherAddress \<Rightarrow> oss);
          oss2 = (case dest of
                    InetSocketAddress a p \<Rightarrow> oss1 @ [Ip a]
                  | OtherAddress \<Rightarrow> oss1)
      in out @ [oss2])"

text \<open>Lines 308--325.\<close>

definition PrintReceivedRoutingPacket :: "real \<Rightarrow> Socket \<Rightarrow> Address \<Rightarrow> line" where
  "PrintReceivedRoutingPacket now socket srcAddress =
     (let oss = [Dbl now, Str '' '', UInt (sock_node socket)]
      in case srcAddress of
           InetSocketAddress a p \<Rightarrow> oss @ [Str '' received one packet from '', Ip a]
         | OtherAddress \<Rightarrow> oss @ [Str '' received one packet!''])"

text \<open>\<^verbatim>\<open>socket->RecvFrom\<close>: the next pending packet's source address, or nothing.\<close>

definition RecvFrom :: "Socket \<Rightarrow> (Address \<times> Socket) option" where
  "RecvFrom socket =
     (case rx_queue socket of
        [] \<Rightarrow> None
      | a # q \<Rightarrow> Some (a, socket\<lparr>rx_queue := q\<rparr>))"

text \<open>Lines 327--339: one line, prefixed \<open>AODV \<close>, for every packet read.\<close>

function ReceiveRoutingPacket :: "real \<Rightarrow> Socket \<Rightarrow> line list \<Rightarrow> Socket \<times> line list" where
  "ReceiveRoutingPacket now socket out =
     (case RecvFrom socket of
        None \<Rightarrow> (socket, out)
      | Some (srcAddress, socket') \<Rightarrow>
          ReceiveRoutingPacket now socket'
            (out @ [Str ''AODV '' # PrintReceivedRoutingPacket now socket' srcAddress]))"
  by pat_completeness auto
termination
  by (relation "measure (\<lambda>(now, s, out). length (rx_queue s))")
     (auto simp: RecvFrom_def split: list.splits)

declare ReceiveRoutingPacket.simps [simp del]

text \<open>
  A packet event as the trace callbacks see it: a transmission with its source and
  destination, or data arriving at a socket. Events are handled one after the other, in
  the order of their dispatch.
\<close>

datatype packet_event = Transmit real Address Address | Receive real Socket

fun on_event :: "packet_event \<Rightarrow> line list \<Rightarrow> line list" where
  "on_event (Transmit now source dest) out = OnOffTrace now source dest out"
| "on_event (Receive now socket) out = snd (ReceiveRoutingPacket now socket out)"

fun on_events :: "packet_event list \<Rightarrow> line list \<Rightarrow> line list" where
  "on_events [] out = out"
| "on_events (e # es) out = on_events es (on_event e out)"

section \<open>The scheduler\<close>

text \<open>
  Modelled from the spec: the event scheduler behind \<^verbatim>\<open>Simulator::Stop\<close> and
  \<^verbatim>\<open>Simulator::Run\<close> is library code. The spec gives an event an absolute fire time
  and the ordering key (time, insertion sequence); the operations are \<open>schedule\<close>,
  \<open>cancel\<close> and \<open>run\<close>. Dispatch is strictly by fire time, equal fire times in
  insertion order; a cancelled event is removed before dispatch; the scheduler is running
  until the queue is empty or the stop time is exceeded, and events beyond the stop time
  are dropped. Times are counted in the simulator's integer time steps.
\<close>

record 'a Event =
  ev_time :: nat
  ev_seq :: nat
  ev_action :: 'a

record 'a Scheduler =
  clock :: nat
  next_seq :: nat
  queue :: "'a Event list"
  dispatched :: "'a Event list"
  running :: bool

definition Scheduler_new :: "'a Scheduler" where
  "Scheduler_new = \<lparr>clock = 0, next_seq = 0, queue = [], dispatched = [], running = True\<rparr>"

definition schedule :: "'a \<Rightarrow> nat \<Rightarrow> 'a Scheduler \<Rightarrow> 'a Scheduler" where
  "schedule a fireTime s =
     s\<lparr>queue := queue s @ [\<lparr>ev_time = fireTime, ev_seq = next_seq s, ev_action = a\<rparr>],
       next_seq := Suc (next_seq s)\<rparr>"

text \<open>An event's handle is its insertion sequence number.\<close>

definition cancel :: "nat \<Rightarrow> 'a Scheduler \<Rightarrow> 'a Scheduler" where
  "cancel h s = s\<lparr>queue := filter (\<lambda>e. ev_seq e \<noteq> h) (queue s)\<rparr>"

text \<open>The ordering key: (time, insertion sequence), compared lexicographically.\<close>

definition before :: "'a Event \<Rightarrow> 'a Event \<Rightarrow> bool" where
  "before a b = (ev_time a < ev_time b \<or> (ev_time a = ev_time b \<and> ev_seq a < ev_seq b))"

fun earliest :: "'a Event list \<Rightarrow> 'a Event option" where
  "earliest [] = None"
| "earliest (e # es) =
     (case earliest es of
        None \<Rightarrow> Some e
      | Some m \<Rightarrow> if before m e then Some m else Some e)"

text \<open>
  What an event's action may ask of the scheduler while it runs: a new event after a
  delay from the current time, or the cancellation of a pending one.
\<close>

datatype 'a request = Schedule 'a nat | Cancel nat

fun serve :: "'a request \<Rightarrow> 'a Scheduler \<Rightarrow> 'a Scheduler" where
  "serve (Schedule a delay) s = schedule a (clock s + delay) s"
| "serve (Cancel h) s = cancel h s"

text \<open>
  \<open>run\<close> dispatches the earliest pending event, runs its action \<open>act\<close> to completion
  and serves its requests, until the queue is empty or the earliest event lies beyond
  \<open>stopTime\<close>. An action may keep scheduling events for ever; \<open>fuel\<close> bounds the number
  of dispatches, and a run that uses it up is still running.
\<close>

fun run :: "('a \<Rightarrow> nat \<Rightarrow> 'a request list) \<Rightarrow> nat \<Rightarrow> nat \<Rightarrow> 'a Scheduler \<Rightarrow> 'a Scheduler" where
  "run act stopTime 0 s = s"
| "run act stopTime (Suc fuel) s =
     (case earliest (queue s) of
        None \<Rightarrow> s\<lparr>running := False\<rparr>
      | Some e \<Rightarrow>
          if stopTime < ev_time e then s\<lparr>queue := [], running := False\<rparr>
          else run act stopTime fuel
                 (fold serve (act (ev_action e) (ev_time e))
                    (s\<lparr>clock := ev_time e,
                       queue := filter (\<lambda>x. ev_seq x \<noteq> ev_seq e) (queue s),
                       dispatched := dispatched s @ [e]\<rparr>)))"

text \<open>The events scheduled during setup, at their absolute fire times, in the order given.\<close>

definition scheduled_at_setup :: "('a \<times> nat) list \<Rightarrow> 'a Scheduler" where
  "scheduled_at_setup evs = fold (\<lambda>(a, fireTime). schedule a fireTime) evs Scheduler_new"

text \<open>
  The invariant of a run: pending events carry sequence numbers already issued and do not
  lie in the past; dispatched events lie at or before the clock and the stop time, come
  before every pending event in the ordering key, and were dispatched in key order.
\<close>

definition sched_inv :: "nat \<Rightarrow> 'a Scheduler \<Rightarrow> bool" where
  "sched_inv stopTime s =
     ((\<forall>e \<in> set (queue s). ev_seq e < next_seq s \<and> clock s \<le> ev_time e) \<and>
      (\<forall>d \<in> set (dispatched s). ev_time d \<le> clock s \<and> ev_seq d < next_seq s \<and>
                                  ev_time d \<le> stopTime) \<and>
      (\<forall>d \<in> set (dispatched s). \<forall>e \<in> set (queue s). before d e) \<and>
      sorted_wrt before (dispatched s))"

section \<open>Facts about CreateNodes\<close>

lemma name_nodes_total:
  "i + k \<le> length ns \<Longrightarrow> \<exists>ns'. name_nodes k i ns = Inr ns' \<and> length ns' = length ns"
proof (induction k arbitrary: i ns)
  case 0
  then show ?case by simp
next
  case (Suc k)
  have "Suc i + k \<le> length (ns[i := (ns ! i)\<lparr>node_name := ''node-'' @ dec i\<rparr>])"
    using Suc.prems by simp
  from Suc.IH [OF this] Suc.prems show ?case
    by (simp add: NodeContainer_Get_def del: dec.simps)
qed

lemma MobilityHelper_Install_row:
  assumes "LayoutType g = ''RowFirst''" and "ns \<noteq> [] \<Longrightarrow> unat (GridWidth g) \<noteq> 0"
  shows "\<exists>ns'. MobilityHelper_Install g cur ns = Inr ns' \<and> length ns' = length ns \<and>
           (\<forall>k < length ns. mobility (ns' ! k) =
              Some (MinX g + DeltaX g * real ((cur + k) mod unat (GridWidth g)),
                    MinY g + DeltaY g * real ((cur + k) div unat (GridWidth g))))"
  using assms(2)
proof (induction ns arbitrary: cur)
  case Nil
  then show ?case by simp
next
  case (Cons n ns)
  have w: "unat (GridWidth g) \<noteq> 0" using Cons.prems by simp
  then have "ns \<noteq> [] \<Longrightarrow> unat (GridWidth g) \<noteq> 0" by simp
  from Cons.IH [OF this, of "Suc cur"] obtain ns' where
    r: "MobilityHelper_Install g (Suc cur) ns = Inr ns'" and
    l: "length ns' = length ns" and
    p: "\<forall>k < length ns. mobility (ns' ! k) =
          Some (MinX g + DeltaX g * real ((Suc cur + k) mod unat (GridWidth g)),
                MinY g + DeltaY g * real ((Suc cur + k) div unat (GridWidth g)))"
    by blast
  have "\<forall>k < length (n # ns). mobility ((n\<lparr>mobility := Some (MinX g + DeltaX g * real (cur mod unat (GridWidth g)),
                MinY g + DeltaY g * real (cur div unat (GridWidth g)))\<rparr> # ns') ! k) =
          Some (MinX g + DeltaX g * real ((cur + k) mod unat (GridWidth g)),
                MinY g + DeltaY g * real ((cur + k) div unat (GridWidth g)))"
  proof (intro allI impI)
    fix k assume "k < length (n # ns)"
    then show "mobility ((n\<lparr>mobility := Some (MinX g + DeltaX g * real (cur mod unat (GridWidth g)),
                MinY g + DeltaY g * real (cur div unat (GridWidth g)))\<rparr> # ns') ! k) =
          Some (MinX g + DeltaX g * real ((cur + k) mod unat (GridWidth g)),
                MinY g + DeltaY g * real ((cur + k) div unat (GridWidth g)))"
      using p by (cases k) simp_all
  qed
  with r l w assms(1) show ?case
    by (simp add: GridPosition_def)
qed

lemma name_nodes_ids:
  "i + k \<le> length ns \<Longrightarrow> \<exists>ns'. name_nodes k i ns = Inr ns' \<and> map node_id ns' = map node_id ns"
proof (induction k arbitrary: i ns)
  case 0
  then show ?case by simp
next
  case (Suc k)
  let ?ns = "ns[i := (ns ! i)\<lparr>node_name := ''node-'' @ dec i\<rparr>]"
  have i: "i < length ns" using Suc.prems by simp
  have "Suc i + k \<le> length ?ns" using Suc.prems by simp
  from Suc.IH [OF this] obtain ns' where
    r: "name_nodes k (Suc i) ?ns = Inr ns'" and m: "map node_id ns' = map node_id ?ns"
    by blast
  have "map node_id ?ns = (map node_id ns)[i := node_id (ns ! i)]"
    by (simp add: map_update del: dec.simps)
  also have "\<dots> = map node_id ns"
    using i by (simp add: list_update_same_conv)
  finally show ?case using r m i
    by (simp add: NodeContainer_Get_def del: dec.simps)
qed

lemma name_nodes_error: "name_nodes k i ns = Inl (e, s) \<Longrightarrow> e = IndexOutOfRange"
  by (induction k arbitrary: i ns)
     (auto simp: NodeContainer_Get_def simp del: dec.simps split: if_splits)

lemma MobilityHelper_Install_ids:
  "MobilityHelper_Install g cur ns = Inr ns' \<Longrightarrow> map node_id ns' = map node_id ns"
  by (induction ns arbitrary: cur ns') (auto split: sum.splits)

lemma MobilityHelper_Install_error:
  "MobilityHelper_Install g cur ns = Inl (e, s) \<Longrightarrow> e = InvalidAttribute \<or> e = DivisionByZero"
  by (induction ns arbitrary: cur s) (auto simp: GridPosition_def split: sum.splits if_splits)

lemma CreateNodes_fresh:
  assumes "nodes t = []"
  shows "\<exists>placed. CreateNodes t =
           Inr (t\<lparr>cout := cout t @ [[Str ''Creating '', UInt (unat (size_cfg t)), Str '' nodes '',
                                      Dbl (step t), Str '' m apart.'']],
                  nodes := placed\<rparr>) \<and>
           map node_id placed = [0..<unat (size_cfg t)] \<and>
           (\<forall>i < unat (size_cfg t). mobility (placed ! i) =
              Some (step t * real (i mod unat (size_cfg t)), 0))"
proof -
  let ?N = "unat (size_cfg t)"
  let ?created = "NodeContainer_Create ?N []"
  have ids: "map node_id ?created = [0..<?N]"
    by (simp add: NodeContainer_Create_def comp_def)
  then have len: "length ?created = ?N" by (simp add: NodeContainer_Create_def)
  then have "0 + ?N \<le> length ?created" by simp
  from name_nodes_ids [OF this] obtain named where
    nm: "name_nodes ?N 0 ?created = Inr named" and mn: "map node_id named = map node_id ?created"
    by blast
  have ln: "length named = ?N" using mn ids by (metis length_map length_upt minus_nat.diff_0)
  let ?g = "\<lparr>MinX = 0, MinY = 0, DeltaX = step t, DeltaY = 0,
             GridWidth = size_cfg t, LayoutType = ''RowFirst''\<rparr>"
  have "LayoutType ?g = ''RowFirst''" by simp
  moreover have "named \<noteq> [] \<Longrightarrow> unat (GridWidth ?g) \<noteq> 0" using ln by (cases named) auto
  ultimately obtain placed where
    pl: "MobilityHelper_Install ?g 0 named = Inr placed" and
    pos: "\<forall>k < length named. mobility (placed ! k) =
            Some (MinX ?g + DeltaX ?g * real ((0 + k) mod unat (GridWidth ?g)),
                  MinY ?g + DeltaY ?g * real ((0 + k) div unat (GridWidth ?g)))"
    using MobilityHelper_Install_row [of ?g named 0] by blast
  have "map node_id placed = [0..<?N]"
    using MobilityHelper_Install_ids [OF pl] mn ids by simp
  moreover have "\<forall>i < ?N. mobility (placed ! i) = Some (step t * real (i mod ?N), 0)"
    using pos ln by simp
  moreover have "CreateNodes t = Inr (t\<lparr>cout := cout t @
                  [[Str ''Creating '', UInt ?N, Str '' nodes '', Dbl (step t), Str '' m apart.'']],
                  nodes := placed\<rparr>)"
    using nm pl assms by (simp add: CreateNodes_def Let_def)
  ultimately show ?thesis by blast
qed

lemma CreateNodes_error:
  "CreateNodes t = Inl (e, s) \<Longrightarrow> e = IndexOutOfRange \<or> e = InvalidAttribute \<or> e = DivisionByZero"
  by (auto simp: CreateNodes_def Let_def split: sum.splits
           dest: name_nodes_error MobilityHelper_Install_error)

section \<open>Facts about addresses\<close>

lemma host_less: 
  assumes "k < 2 ^ 24" shows "(word_of_nat k :: 32 word) < 2 ^ 24"
proof -
  have "unat (word_of_nat k :: 32 word) = k" using assms by (simp add: unat_of_nat)
  then show ?thesis using assms by (simp add: word_less_nat_alt)
qed

lemma host_and_mask:
  assumes "(w :: 32 word) < 2 ^ 24" shows "w AND 0xFF000000 = 0"
proof -
  have m: "w AND mask 24 = w" using assms by (rule less_mask_eq)
  have n: "(0xFF000000 :: 32 word) = NOT (mask 24)" by (simp add: mask_eq_exp_minus_1)
  have "w AND NOT (mask 24) = (w AND mask 24) AND NOT (mask 24)" by (simp only: m)
  also have "\<dots> = 0" by (simp only: and.assoc bit.conj_cancel_right and_zero_eq)
  finally show ?thesis by (simp only: n)
qed

lemma subnet_of_host:
  assumes "k < 2 ^ 24"
  shows "((0x0A000000 :: 32 word) OR word_of_nat k) AND 0xFF000000 = 0x0A000000"
proof -
  have "((0x0A000000 :: 32 word) OR word_of_nat k) AND 0xFF000000
        = (0x0A000000 AND 0xFF000000) OR (word_of_nat k AND 0xFF000000)"
    by (rule bit.conj_disj_distrib2)
  also have "\<dots> = 0x0A000000" using host_and_mask [OF host_less [OF assms]] by simp
  finally show ?thesis .
qed

lemma host_of_address:
  assumes "k < 2 ^ 24"
  shows "((0x0A000000 :: 32 word) OR word_of_nat k) AND mask 24 = word_of_nat k"
proof -
  have "((0x0A000000 :: 32 word) OR word_of_nat k) AND mask 24
        = (0x0A000000 AND mask 24) OR (word_of_nat k AND mask 24)"
    by (rule bit.conj_disj_distrib2)
  also have "\<dots> = word_of_nat k" using less_mask_eq [OF host_less [OF assms]]
    by (simp add: mask_eq_exp_minus_1)
  finally show ?thesis .
qed

lemma address_inj:
  assumes "j < 2 ^ 24" and "k < 2 ^ 24"
    and "(0x0A000000 :: 32 word) OR word_of_nat j = 0x0A000000 OR word_of_nat k"
  shows "j = k"
proof -
  have "(word_of_nat j :: 32 word) = ((0x0A000000 :: 32 word) OR word_of_nat j) AND mask 24"
    by (rule host_of_address [OF assms(1), symmetric])
  also have "\<dots> = ((0x0A000000 :: 32 word) OR word_of_nat k) AND mask 24"
    by (simp only: assms(3))
  also have "\<dots> = word_of_nat k"
    by (rule host_of_address [OF assms(2)])
  finally have "unat (word_of_nat j :: 32 word) = unat (word_of_nat k :: 32 word)"
    by (rule arg_cong)
  moreover have "unat (word_of_nat j :: 32 word) = j" using assms(1) by (simp add: unat_of_nat)
  moreover have "unat (word_of_nat k :: 32 word) = k" using assms(2) by (simp add: unat_of_nat)
  ultimately show ?thesis by (simp only:)
qed

lemma Assign_props:
  "Assign h ds = Inr ifs \<Longrightarrow>
     map fst ifs = map dev_node ds \<and>
     map snd ifs = map (\<lambda>k. network h OR word_of_nat k) [address h ..< address h + length ds] \<and>
     (\<forall>k. address h \<le> k \<and> k < address h + length ds \<longrightarrow> k \<le> unat (NOT (netmask h)) - 1)"
proof (induction ds arbitrary: h ifs)
  case Nil
  then show ?case by simp
next
  case (Cons d ds)
  let ?h = "h\<lparr>address := Suc (address h)\<rparr>"
  from Cons.prems obtain rest where
    ok: "address h \<le> unat (NOT (netmask h)) - 1" and
    r: "Assign ?h ds = Inr rest" and
    i: "ifs = (dev_node d, network h OR word_of_nat (address h)) # rest"
    by (auto simp: NewAddress_def split: if_splits sum.splits)
  from Cons.IH [OF r] have
    f: "map fst rest = map dev_node ds" and
    s: "map snd rest = map (\<lambda>k. network h OR word_of_nat k) [Suc (address h) ..< Suc (address h) + length ds]" and
    b: "\<forall>k. Suc (address h) \<le> k \<and> k < Suc (address h) + length ds \<longrightarrow> k \<le> unat (NOT (netmask h)) - 1"
    by simp_all
  have u: "[address h ..< address h + length (d # ds)] =
           address h # [Suc (address h) ..< Suc (address h) + length ds]"
    using upt_conv_Cons [of "address h" "Suc (address h) + length ds"] by simp
  have "\<forall>k. address h \<le> k \<and> k < address h + length (d # ds) \<longrightarrow> k \<le> unat (NOT (netmask h)) - 1"
  proof (intro allI impI)
    fix k assume k: "address h \<le> k \<and> k < address h + length (d # ds)"
    show "k \<le> unat (NOT (netmask h)) - 1"
    proof (cases "k = address h")
      case True
      then show ?thesis using ok by simp
    next
      case False
      then show ?thesis using k b by simp
    qed
  qed
  then show ?case using i f s u by simp
qed

lemma Assign_succeeds:
  "(\<forall>k. address h \<le> k \<and> k < address h + length ds \<longrightarrow> k \<le> unat (NOT (netmask h)) - 1) \<Longrightarrow>
   \<exists>ifs. Assign h ds = Inr ifs"
proof (induction ds arbitrary: h)
  case Nil
  then show ?case by simp
next
  case (Cons d ds)
  let ?h = "h\<lparr>address := Suc (address h)\<rparr>"
  have "address h \<le> unat (NOT (netmask h)) - 1" using Cons.prems by simp
  moreover have "\<forall>k. address ?h \<le> k \<and> k < address ?h + length ds \<longrightarrow> k \<le> unat (NOT (netmask ?h)) - 1"
    using Cons.prems by simp
  from Cons.IH [OF this] obtain rest where "Assign ?h ds = Inr rest" by blast
  ultimately show ?case by (simp add: NewAddress_def)
qed

lemma Assign_error: "Assign h ds = Inl e \<Longrightarrow> e = AddressOverflow"
  by (induction ds arbitrary: h) (auto simp: NewAddress_def split: if_splits sum.splits)

lemma pool_size: "unat (NOT (0xFF000000 :: 32 word)) - 1 = 16777214"
  by simp

section \<open>Facts about the stages of a run\<close>

lemma InstallInternetStack_result:
  assumes "InstallInternetStack t = Inr t'"
  shows "\<exists>ifs. Assign (SetBase 0x0A000000 0xFF000000) (devices t) = Inr ifs \<and>
           t' = t\<lparr>nodes := map (\<lambda>n. n\<lparr>routing := Some ''ns3::aodv::RoutingProtocol''\<rparr>) (nodes t),
                  interfaces := ifs,
                  routing_prints :=
                    (if printRoutes t
                     then routing_prints t @ PrintRoutingTableAllAt 8 ''aodv.routes''
                            (map (\<lambda>n. n\<lparr>routing := Some ''ns3::aodv::RoutingProtocol''\<rparr>) (nodes t))
                     else routing_prints t)\<rparr>"
  using assms by (auto simp: InstallInternetStack_def Let_def split: sum.splits if_splits)

lemma InstallInternetStack_error: "InstallInternetStack t = Inl (e, s) \<Longrightarrow> e = AddressOverflow"
  by (auto simp: InstallInternetStack_def Let_def split: sum.splits if_splits dest: Assign_error)

lemma InstallApplications_result:
  assumes "InstallApplications u t = Inr t'"
  shows "\<exists>a n0. GetAddress (interfaces t) (unat (size_cfg t - 1)) = Inr a \<and>
           NodeContainer_Get (nodes t) 0 = Inr n0 \<and>
           t' = t\<lparr>sockets := sockets t @ map recvSink (nodes t),
                  calls := calls t @ concat (map recvSink_calls (nodes t)) @
                           [Simulator_Stop (totalTime t), Simulator_Run, Simulator_Destroy],
                  applications := applications t @
                    [\<lparr>app_node = node_id n0, app_protocol = ''ns3::UdpSocketFactory'',
                      OnTime = 1, OffTime = 0, Remote = InetSocketAddress a 80,
                      StartTime = Some (GetValue 1 2 u), StopTime = Some 10\<rparr>],
                  trace_sinks := trace_sinks t @
                    [(''/NodeList/*/ApplicationList/*/$ns3::OnOffApplication/TxWithAddresses'',
                      ''AodvExample::OnOffTrace'')]\<rparr>"
  using assms by (auto simp: InstallApplications_def Let_def split: sum.splits)

lemma InstallApplications_succeeds:
  assumes "GetAddress (interfaces t) (unat (size_cfg t - 1)) = Inr a"
    and "NodeContainer_Get (nodes t) 0 = Inr n0"
  shows "\<exists>t'. InstallApplications u t = Inr t'"
  using assms by (simp add: InstallApplications_def Let_def)

lemma InstallApplications_error: "InstallApplications u t = Inl (e, s) \<Longrightarrow> e = IndexOutOfRange"
  by (auto simp: InstallApplications_def Let_def GetAddress_def NodeContainer_Get_def
           split: sum.splits if_splits)

lemma CommandLine_handle_frame:
  "CommandLine_handle t a = Inr t' \<Longrightarrow>
     nodes t' = nodes t \<and> devices t' = devices t \<and> interfaces t' = interfaces t \<and>
     rng_seed t' = rng_seed t \<and> sockets t' = sockets t \<and> applications t' = applications t \<and>
     pcap_prefix t' = pcap_prefix t \<and> routing_prints t' = routing_prints t \<and>
     trace_sinks t' = trace_sinks t \<and> calls t' = calls t \<and> cout t' = cout t"
  by (cases a) (auto split: if_splits flag_value.splits)

lemma CommandLine_Parse_frame:
  "CommandLine_Parse args t = Inr t' \<Longrightarrow>
     nodes t' = nodes t \<and> devices t' = devices t \<and> interfaces t' = interfaces t \<and>
     rng_seed t' = rng_seed t \<and> sockets t' = sockets t \<and> applications t' = applications t \<and>
     pcap_prefix t' = pcap_prefix t \<and> routing_prints t' = routing_prints t \<and>
     trace_sinks t' = trace_sinks t \<and> calls t' = calls t \<and> cout t' = cout t"
proof (induction args arbitrary: t)
  case Nil
  then show ?case by simp
next
  case (Cons a args)
  from Cons.prems obtain t1 where h: "CommandLine_handle t a = Inr t1"
    and p: "CommandLine_Parse args t1 = Inr t'"
    by (auto split: sum.splits)
  from Cons.IH [OF p] CommandLine_handle_frame [OF h] show ?case by simp
qed

lemma CommandLine_Parse_error: "CommandLine_Parse args t = Inl (e, s) \<Longrightarrow> e = CommandLineExit"
  by (induction args arbitrary: t) (auto split: sum.splits if_splits flag_value.splits)

lemma CommandLine_Parse_abort_frame:
  "CommandLine_Parse args t = Inl (e, s) \<Longrightarrow>
     nodes s = nodes t \<and> devices s = devices t \<and> interfaces s = interfaces t \<and>
     rng_seed s = rng_seed t \<and> sockets s = sockets t \<and> applications s = applications t \<and>
     pcap_prefix s = pcap_prefix t \<and> routing_prints s = routing_prints t \<and>
     trace_sinks s = trace_sinks t \<and> calls s = calls t \<and> cout s = cout t"
proof (induction args arbitrary: t)
  case Nil
  then show ?case by simp
next
  case (Cons a args)
  show ?case
  proof (cases "CommandLine_handle t a")
    case (Inl x)
    then have "s = t" using Cons.prems by simp
    then show ?thesis by simp
  next
    case (Inr t1)
    then have "CommandLine_Parse args t1 = Inl (e, s)" using Cons.prems by simp
    from Cons.IH [OF this] CommandLine_handle_frame [OF Inr] show ?thesis by simp
  qed
qed

lemma Run_result:
  assumes "Run u t = Inr t'"
  shows "\<exists>t1 t2 t3. CreateNodes t = Inr t1 \<and> InstallInternetStack (CreateDevices t1) = Inr t2 \<and>
           InstallApplications u t2 = Inr t3 \<and>
           t' = t3\<lparr>cout := cout t3 @
                      [[Str ''Starting simulation for '', Dbl (totalTime t3), Str '' s ...'']],
                    calls := calls t3 @
                      [Simulator_Stop (totalTime t3), Simulator_Run, Simulator_Destroy]\<rparr>"
  using assms by (auto simp: Run_def split: sum.splits)

lemma Run_error:
  "Run u t = Inl (e, s) \<Longrightarrow>
     e = IndexOutOfRange \<or> e = InvalidAttribute \<or> e = DivisionByZero \<or> e = AddressOverflow"
  by (auto simp: Run_def split: sum.splits
           dest: CreateNodes_error InstallInternetStack_error InstallApplications_error)

lemma unat_size_minus_one:
  assumes "1 \<le> unat (w :: 32 word)" shows "unat (w - 1) = unat w - 1"
proof -
  have "w \<noteq> 0" using assms by auto
  then show ?thesis by (rule unat_minus_one)
qed

lemma Run_fresh:
  assumes fresh: "nodes t = []"
    and lo: "1 \<le> unat (size_cfg t)" and hi: "unat (size_cfg t) \<le> 16777214"
  shows "\<exists>t'. Run u t = Inr t' \<and>
           size_cfg t' = size_cfg t \<and> step t' = step t \<and> totalTime t' = totalTime t \<and>
           pcap t' = pcap t \<and> printRoutes t' = printRoutes t \<and>
           map node_id (nodes t') = [0..<unat (size_cfg t)] \<and>
           (\<forall>i < unat (size_cfg t). mobility (nodes t' ! i) = Some (real i * step t, 0)) \<and>
           map fst (interfaces t') = [0..<unat (size_cfg t)] \<and>
           map snd (interfaces t') =
             map (\<lambda>k. 0x0A000000 OR word_of_nat k) [1..<1 + unat (size_cfg t)] \<and>
           applications t' = applications t @
             [\<lparr>app_node = 0, app_protocol = ''ns3::UdpSocketFactory'', OnTime = 1, OffTime = 0,
               Remote = InetSocketAddress (0x0A000000 OR word_of_nat (unat (size_cfg t))) 80,
               StartTime = Some (GetValue 1 2 u), StopTime = Some 10\<rparr>] \<and>
           sockets t' = sockets t @ map recvSink (nodes t') \<and>
           calls t' = calls t @ concat (map recvSink_calls (nodes t')) @
             [Simulator_Stop (totalTime t), Simulator_Run, Simulator_Destroy,
              Simulator_Stop (totalTime t), Simulator_Run, Simulator_Destroy] \<and>
           routing_prints t' = routing_prints t @
             (if printRoutes t then map (\<lambda>n. (8, node_id n, ''aodv.routes'')) (nodes t') else [])"
proof -
  let ?N = "unat (size_cfg t)"
  let ?rt = "\<lambda>n. n\<lparr>routing := Some ''ns3::aodv::RoutingProtocol''\<rparr>"
  from CreateNodes_fresh [OF fresh] obtain placed where
    c: "CreateNodes t = Inr (t\<lparr>cout := cout t @ [[Str ''Creating '', UInt ?N, Str '' nodes '',
                                      Dbl (step t), Str '' m apart.'']], nodes := placed\<rparr>)" and
    ids: "map node_id placed = [0..<?N]" and
    pos: "\<forall>i < ?N. mobility (placed ! i) = Some (step t * real (i mod ?N), 0)"
    by blast
  let ?t1 = "t\<lparr>cout := cout t @ [[Str ''Creating '', UInt ?N, Str '' nodes '',
                                      Dbl (step t), Str '' m apart.'']], nodes := placed\<rparr>"
  have lp: "length placed = ?N" using ids by (metis length_map length_upt minus_nat.diff_0)
  let ?d = "CreateDevices ?t1"
  have dn: "map dev_node (devices ?d) = [0..<?N]"
    using ids by (simp add: CreateDevices_def Let_def comp_def)
  have ld: "length (devices ?d) = ?N" using dn by (metis length_map length_upt minus_nat.diff_0)
  let ?h = "SetBase 0x0A000000 0xFF000000"
  have "\<forall>k. address ?h \<le> k \<and> k < address ?h + length (devices ?d) \<longrightarrow>
            k \<le> unat (NOT (netmask ?h)) - 1"
    using hi ld by (simp add: SetBase_def)
  from Assign_succeeds [OF this] obtain ifs where a: "Assign ?h (devices ?d) = Inr ifs" by blast
  from Assign_props [OF a] have
    f: "map fst ifs = [0..<?N]" and
    s: "map snd ifs = map (\<lambda>k. 0x0A000000 OR word_of_nat k) [1..<1 + ?N]"
    using dn ld by (simp_all add: SetBase_def)
  have li: "length ifs = ?N" using f by (metis length_map length_upt minus_nat.diff_0)
  let ?ns = "map ?rt placed"
  let ?t2 = "?d\<lparr>nodes := ?ns, interfaces := ifs,
                 routing_prints := (if printRoutes t
                     then routing_prints t @ PrintRoutingTableAllAt 8 ''aodv.routes'' ?ns
                     else routing_prints t)\<rparr>"
  have i: "InstallInternetStack ?d = Inr ?t2"
    using a by (simp add: InstallInternetStack_def Let_def CreateDevices_def)
  have idx: "unat (size_cfg t - 1) = ?N - 1" using lo by (rule unat_size_minus_one)
  have "snd (ifs ! (?N - 1)) = map snd ifs ! (?N - 1)" using li lo by simp
  also have "\<dots> = (\<lambda>k. 0x0A000000 OR word_of_nat k) ([1..<1 + ?N] ! (?N - 1))"
    unfolding s using lo by (intro nth_map) simp
  also have "[1..<1 + ?N] ! (?N - 1) = 1 + (?N - 1)" using lo by (intro nth_upt) simp
  also have "1 + (?N - 1) = ?N" using lo by simp
  finally have ga: "GetAddress (interfaces ?t2) (unat (size_cfg ?t2 - 1)) =
                      Inr (0x0A000000 OR word_of_nat ?N)"
    using li lo idx by (simp add: GetAddress_def CreateDevices_def Let_def)
  have "node_id (placed ! 0) = map node_id placed ! 0" using lp lo by simp
  also have "\<dots> = 0" using lo by (simp add: ids)
  finally have n0: "node_id (placed ! 0) = 0" .
  have gn: "NodeContainer_Get (nodes ?t2) 0 = Inr (?rt (placed ! 0))"
    using lp lo by (simp add: NodeContainer_Get_def CreateDevices_def Let_def)
  have ia: "\<exists>t3. InstallApplications u ?t2 = Inr t3"
    using ga gn by (rule InstallApplications_succeeds)
  then obtain t3 where t3: "InstallApplications u ?t2 = Inr t3" by blast
  from InstallApplications_result [OF t3] ga gn have
    e3: "t3 = ?t2\<lparr>sockets := sockets ?t2 @ map recvSink (nodes ?t2),
                  calls := calls ?t2 @ concat (map recvSink_calls (nodes ?t2)) @
                           [Simulator_Stop (totalTime ?t2), Simulator_Run, Simulator_Destroy],
                  applications := applications ?t2 @
                    [\<lparr>app_node = node_id (?rt (placed ! 0)), app_protocol = ''ns3::UdpSocketFactory'',
                      OnTime = 1, OffTime = 0,
                      Remote = InetSocketAddress (0x0A000000 OR word_of_nat ?N) 80,
                      StartTime = Some (GetValue 1 2 u), StopTime = Some 10\<rparr>],
                  trace_sinks := trace_sinks ?t2 @
                    [(''/NodeList/*/ApplicationList/*/$ns3::OnOffApplication/TxWithAddresses'',
                      ''AodvExample::OnOffTrace'')]\<rparr>"
    by auto
  let ?t' = "t3\<lparr>cout := cout t3 @
                      [[Str ''Starting simulation for '', Dbl (totalTime t3), Str '' s ...'']],
                    calls := calls t3 @
                      [Simulator_Stop (totalTime t3), Simulator_Run, Simulator_Destroy]\<rparr>"
  have r: "Run u t = Inr ?t'" using c i t3 by (simp add: Run_def)
  have nid: "map node_id ?ns = [0..<?N]" using ids by (simp add: comp_def)
  have "size_cfg ?t' = size_cfg t \<and> step ?t' = step t \<and> totalTime ?t' = totalTime t \<and>
        pcap ?t' = pcap t \<and> printRoutes ?t' = printRoutes t"
    by (simp add: e3 CreateDevices_def Let_def)
  moreover have "nodes ?t' = ?ns" by (simp add: e3)
  moreover have "\<forall>i < ?N. mobility (?ns ! i) = Some (real i * step t, 0)"
    using pos lp by (simp add: mult.commute)
  moreover have "interfaces ?t' = ifs" by (simp add: e3)
  moreover have "applications ?t' = applications t @
             [\<lparr>app_node = 0, app_protocol = ''ns3::UdpSocketFactory'', OnTime = 1, OffTime = 0,
               Remote = InetSocketAddress (0x0A000000 OR word_of_nat ?N) 80,
               StartTime = Some (GetValue 1 2 u), StopTime = Some 10\<rparr>]"
    using n0 by (simp add: e3 CreateDevices_def Let_def)
  moreover have "sockets ?t' = sockets t @ map recvSink ?ns"
    by (simp add: e3 CreateDevices_def Let_def)
  moreover have "calls ?t' = calls t @ concat (map recvSink_calls ?ns) @
             [Simulator_Stop (totalTime t), Simulator_Run, Simulator_Destroy,
              Simulator_Stop (totalTime t), Simulator_Run, Simulator_Destroy]"
    by (simp add: e3 CreateDevices_def Let_def)
  moreover have "routing_prints ?t' = routing_prints t @
             (if printRoutes t then map (\<lambda>n. (8, node_id n, ''aodv.routes'')) ?ns else [])"
    by (simp add: e3 CreateDevices_def Let_def PrintRoutingTableAllAt_def)
  ultimately show ?thesis using r nid f s by (intro exI [of _ ?t']) (simp only:)
qed

lemma Run_completes_bounds:
  assumes fresh: "nodes t = []" and r: "Run u t = Inr t'"
  shows "1 \<le> unat (size_cfg t) \<and> unat (size_cfg t) \<le> 16777214"
proof -
  let ?N = "unat (size_cfg t)"
  from Run_result [OF r] obtain t1 t2 t3 where
    c: "CreateNodes t = Inr t1" and i: "InstallInternetStack (CreateDevices t1) = Inr t2" and
    a: "InstallApplications u t2 = Inr t3"
    by blast
  from CreateNodes_fresh [OF fresh] c obtain placed where
    t1: "t1 = t\<lparr>cout := cout t @ [[Str ''Creating '', UInt ?N, Str '' nodes '',
                                      Dbl (step t), Str '' m apart.'']], nodes := placed\<rparr>" and
    ids: "map node_id placed = [0..<?N]"
    by auto
  have lp: "length placed = ?N" using ids by (metis length_map length_upt minus_nat.diff_0)
  have ld: "length (devices (CreateDevices t1)) = ?N"
    using lp by (simp add: t1 CreateDevices_def Let_def)
  from InstallInternetStack_result [OF i] obtain ifs where
    as: "Assign (SetBase 0x0A000000 0xFF000000) (devices (CreateDevices t1)) = Inr ifs" and
    t2: "interfaces t2 = ifs" "size_cfg t2 = size_cfg t"
    by (auto simp: t1 CreateDevices_def Let_def)
  from Assign_props [OF as] have
    li: "length ifs = ?N" and
    b: "\<forall>k. 1 \<le> k \<and> k < 1 + ?N \<longrightarrow> k \<le> 16777214"
    using ld by (auto simp: SetBase_def dest: map_eq_imp_length_eq)
  from InstallApplications_result [OF a] have "unat (size_cfg t - 1) < ?N"
    using t2 li by (auto simp: GetAddress_def split: if_splits)
  then have lo: "1 \<le> ?N" by (cases "?N = 0") (simp_all add: unat_eq_zero)
  then have "1 \<le> ?N \<and> ?N < 1 + ?N" by simp
  with b have "?N \<le> 16777214" by blast
  with lo show ?thesis by simp
qed

lemma Parse_new_fresh:
  assumes "CommandLine_Parse args (AodvExample_new\<lparr>rng_seed := 12345\<rparr>) = Inr cfg"
  shows "nodes cfg = [] \<and> sockets cfg = [] \<and> applications cfg = [] \<and> calls cfg = [] \<and>
         routing_prints cfg = [] \<and> interfaces cfg = []"
  using CommandLine_Parse_frame [OF assms] by (simp add: AodvExample_new_def)

lemma main_result:
  assumes "main args u = Inr (code, t)"
  shows "code = 0 \<and> (\<exists>cfg. CommandLine_Parse args (AodvExample_new\<lparr>rng_seed := 12345\<rparr>) = Inr cfg \<and>
           Run u cfg = Inr t)"
  using assms by (auto simp: main_def Configure_def Report_def split: sum.splits if_splits)

lemma main_of_Run:
  assumes "CommandLine_Parse args (AodvExample_new\<lparr>rng_seed := 12345\<rparr>) = Inr cfg"
  shows "main args u = (case Run u cfg of Inl x \<Rightarrow> Inl x | Inr t \<Rightarrow> Inr (0, t))"
  using assms by (simp add: main_def Configure_def Report_def split: sum.splits)

lemma main_completes_iff:
  "(\<exists>code t. main args u = Inr (code, t)) \<longleftrightarrow>
   (\<exists>cfg. CommandLine_Parse args (AodvExample_new\<lparr>rng_seed := 12345\<rparr>) = Inr cfg \<and>
          1 \<le> unat (size_cfg cfg) \<and> unat (size_cfg cfg) \<le> 16777214)"
proof
  assume "\<exists>code t. main args u = Inr (code, t)"
  then obtain code t where m: "main args u = Inr (code, t)" by blast
  from main_result [OF m] obtain cfg where
    p: "CommandLine_Parse args (AodvExample_new\<lparr>rng_seed := 12345\<rparr>) = Inr cfg" and
    r: "Run u cfg = Inr t" by blast
  from Parse_new_fresh [OF p] have "nodes cfg = []" by simp
  from Run_completes_bounds [OF this r] p
  show "\<exists>cfg. CommandLine_Parse args (AodvExample_new\<lparr>rng_seed := 12345\<rparr>) = Inr cfg \<and>
          1 \<le> unat (size_cfg cfg) \<and> unat (size_cfg cfg) \<le> 16777214" by blast
next
  assume "\<exists>cfg. CommandLine_Parse args (AodvExample_new\<lparr>rng_seed := 12345\<rparr>) = Inr cfg \<and>
          1 \<le> unat (size_cfg cfg) \<and> unat (size_cfg cfg) \<le> 16777214"
  then obtain cfg where
    p: "CommandLine_Parse args (AodvExample_new\<lparr>rng_seed := 12345\<rparr>) = Inr cfg" and
    lo: "1 \<le> unat (size_cfg cfg)" and hi: "unat (size_cfg cfg) \<le> 16777214" by blast
  from Parse_new_fresh [OF p] have "nodes cfg = []" by simp
  from Run_fresh [OF this lo hi, of u] obtain t where "Run u cfg = Inr t" by blast
  then show "\<exists>code t. main args u = Inr (code, t)" by (simp add: main_of_Run [OF p])
qed

lemma main_success:
  assumes p: "CommandLine_Parse args (AodvExample_new\<lparr>rng_seed := 12345\<rparr>) = Inr cfg"
    and lo: "1 \<le> unat (size_cfg cfg)" and hi: "unat (size_cfg cfg) \<le> 16777214"
  shows "\<exists>t. main args u = Inr (0, t) \<and>
           size_cfg t = size_cfg cfg \<and> step t = step cfg \<and> totalTime t = totalTime cfg \<and>
           pcap t = pcap cfg \<and> printRoutes t = printRoutes cfg \<and>
           map node_id (nodes t) = [0..<unat (size_cfg cfg)] \<and>
           map fst (interfaces t) = [0..<unat (size_cfg cfg)] \<and>
           map snd (interfaces t) =
             map (\<lambda>k. 0x0A000000 OR word_of_nat k) [1..<1 + unat (size_cfg cfg)] \<and>
           applications t =
             [\<lparr>app_node = 0, app_protocol = ''ns3::UdpSocketFactory'', OnTime = 1, OffTime = 0,
               Remote = InetSocketAddress (0x0A000000 OR word_of_nat (unat (size_cfg cfg))) 80,
               StartTime = Some (GetValue 1 2 u), StopTime = Some 10\<rparr>] \<and>
           sockets t = map recvSink (nodes t) \<and>
           calls t = concat (map recvSink_calls (nodes t)) @
             [Simulator_Stop (totalTime cfg), Simulator_Run, Simulator_Destroy,
              Simulator_Stop (totalTime cfg), Simulator_Run, Simulator_Destroy] \<and>
           routing_prints t =
             (if printRoutes cfg then map (\<lambda>n. (8, node_id n, ''aodv.routes'')) (nodes t) else [])"
proof -
  from Parse_new_fresh [OF p] have
    f: "nodes cfg = []" "sockets cfg = []" "applications cfg = []" "calls cfg = []"
       "routing_prints cfg = []"
    by simp_all
  from Run_fresh [OF f(1) lo hi, of u] obtain t where r: "Run u cfg = Inr t" and
    facts: "size_cfg t = size_cfg cfg \<and> step t = step cfg \<and> totalTime t = totalTime cfg \<and>
           pcap t = pcap cfg \<and> printRoutes t = printRoutes cfg \<and>
           map node_id (nodes t) = [0..<unat (size_cfg cfg)] \<and>
           map fst (interfaces t) = [0..<unat (size_cfg cfg)] \<and>
           map snd (interfaces t) =
             map (\<lambda>k. 0x0A000000 OR word_of_nat k) [1..<1 + unat (size_cfg cfg)] \<and>
           applications t = applications cfg @
             [\<lparr>app_node = 0, app_protocol = ''ns3::UdpSocketFactory'', OnTime = 1, OffTime = 0,
               Remote = InetSocketAddress (0x0A000000 OR word_of_nat (unat (size_cfg cfg))) 80,
               StartTime = Some (GetValue 1 2 u), StopTime = Some 10\<rparr>] \<and>
           sockets t = sockets cfg @ map recvSink (nodes t) \<and>
           calls t = calls cfg @ concat (map recvSink_calls (nodes t)) @
             [Simulator_Stop (totalTime cfg), Simulator_Run, Simulator_Destroy,
              Simulator_Stop (totalTime cfg), Simulator_Run, Simulator_Destroy] \<and>
           routing_prints t = routing_prints cfg @
             (if printRoutes cfg then map (\<lambda>n. (8, node_id n, ''aodv.routes'')) (nodes t) else [])"
    by blast
  have "main args u = Inr (0, t)" using r by (simp add: main_of_Run [OF p])
  then show ?thesis using facts unfolding f by (intro exI [of _ t]) simp
qed

lemma completed_run:
  assumes m: "main args u = Inr (code, t)"
  shows "code = 0 \<and> 1 \<le> unat (size_cfg t) \<and> unat (size_cfg t) \<le> 16777214 \<and>
         map node_id (nodes t) = [0..<unat (size_cfg t)] \<and>
         (\<forall>i < unat (size_cfg t). mobility (nodes t ! i) = Some (real i * step t, 0)) \<and>
         map fst (interfaces t) = [0..<unat (size_cfg t)] \<and>
         map snd (interfaces t) =
           map (\<lambda>k. 0x0A000000 OR word_of_nat k) [1..<1 + unat (size_cfg t)] \<and>
         applications t =
           [\<lparr>app_node = 0, app_protocol = ''ns3::UdpSocketFactory'', OnTime = 1, OffTime = 0,
             Remote = InetSocketAddress (0x0A000000 OR word_of_nat (unat (size_cfg t))) 80,
             StartTime = Some (GetValue 1 2 u), StopTime = Some 10\<rparr>] \<and>
         sockets t = map recvSink (nodes t) \<and>
         calls t = concat (map recvSink_calls (nodes t)) @
           [Simulator_Stop (totalTime t), Simulator_Run, Simulator_Destroy,
            Simulator_Stop (totalTime t), Simulator_Run, Simulator_Destroy] \<and>
         routing_prints t =
           (if printRoutes t then map (\<lambda>n. (8, node_id n, ''aodv.routes'')) (nodes t) else [])"
proof -
  from main_result [OF m] obtain cfg where c0: "code = 0" and
    p: "CommandLine_Parse args (AodvExample_new\<lparr>rng_seed := 12345\<rparr>) = Inr cfg" and
    r: "Run u cfg = Inr t" by blast
  from Parse_new_fresh [OF p] have
    f: "nodes cfg = []" "sockets cfg = []" "applications cfg = []" "calls cfg = []"
       "routing_prints cfg = []"
    by simp_all
  from Run_completes_bounds [OF f(1) r] have
    lo: "1 \<le> unat (size_cfg cfg)" and hi: "unat (size_cfg cfg) \<le> 16777214" by simp_all
  from Run_fresh [OF f(1) lo hi, of u] r have
    facts: "size_cfg t = size_cfg cfg \<and> step t = step cfg \<and> totalTime t = totalTime cfg \<and>
           pcap t = pcap cfg \<and> printRoutes t = printRoutes cfg \<and>
           map node_id (nodes t) = [0..<unat (size_cfg cfg)] \<and>
           (\<forall>i < unat (size_cfg cfg). mobility (nodes t ! i) = Some (real i * step cfg, 0)) \<and>
           map fst (interfaces t) = [0..<unat (size_cfg cfg)] \<and>
           map snd (interfaces t) =
             map (\<lambda>k. 0x0A000000 OR word_of_nat k) [1..<1 + unat (size_cfg cfg)] \<and>
           applications t = applications cfg @
             [\<lparr>app_node = 0, app_protocol = ''ns3::UdpSocketFactory'', OnTime = 1, OffTime = 0,
               Remote = InetSocketAddress (0x0A000000 OR word_of_nat (unat (size_cfg cfg))) 80,
               StartTime = Some (GetValue 1 2 u), StopTime = Some 10\<rparr>] \<and>
           sockets t = sockets cfg @ map recvSink (nodes t) \<and>
           calls t = calls cfg @ concat (map recvSink_calls (nodes t)) @
             [Simulator_Stop (totalTime cfg), Simulator_Run, Simulator_Destroy,
              Simulator_Stop (totalTime cfg), Simulator_Run, Simulator_Destroy] \<and>
           routing_prints t = routing_prints cfg @
             (if printRoutes cfg then map (\<lambda>n. (8, node_id n, ''aodv.routes'')) (nodes t) else [])"
    by auto
  have e: "size_cfg cfg = size_cfg t" "step cfg = step t" "totalTime cfg = totalTime t"
    "printRoutes cfg = printRoutes t"
    using facts by simp_all
  show ?thesis using c0 lo hi facts unfolding f e by simp
qed

lemma last_interface:
  assumes lo: "1 \<le> N"
    and f: "map fst ifs = [0..<N]"
    and s: "map snd ifs = map (\<lambda>k. 0x0A000000 OR word_of_nat k) [1..<1 + N]"
  shows "ifs ! (N - 1) = (N - 1, (0x0A000000 :: 32 word) OR word_of_nat N)"
proof -
  have l: "length ifs = N" using f by (metis length_map length_upt minus_nat.diff_0)
  have "fst (ifs ! (N - 1)) = map fst ifs ! (N - 1)" using l lo by simp
  also have "\<dots> = N - 1" unfolding f using lo by simp
  finally have a: "fst (ifs ! (N - 1)) = N - 1" .
  have "snd (ifs ! (N - 1)) = map snd ifs ! (N - 1)" using l lo by simp
  also have "\<dots> = (\<lambda>k. 0x0A000000 OR word_of_nat k) ([1..<1 + N] ! (N - 1))"
    unfolding s using lo by (intro nth_map) simp
  also have "[1..<1 + N] ! (N - 1) = 1 + (N - 1)" using lo by (intro nth_upt) simp
  also have "1 + (N - 1) = N" using lo by simp
  finally have "snd (ifs ! (N - 1)) = 0x0A000000 OR word_of_nat N" .
  with a show ?thesis by (simp add: prod_eq_iff)
qed

lemma no_Run_in_sink_calls: "Simulator_Run \<notin> set (concat (map recvSink_calls ns))"
  by (auto simp: recvSink_calls_def)

lemma default_run:
  "\<exists>t. main [] u = Inr (0, t) \<and> size_cfg t = 10 \<and> step t = 100 \<and> totalTime t = 100 \<and>
       \<not> pcap t \<and> printRoutes t"
proof -
  have p: "CommandLine_Parse [] (AodvExample_new\<lparr>rng_seed := 12345\<rparr>) =
             Inr (AodvExample_new\<lparr>rng_seed := 12345\<rparr>)"
    by simp
  have "1 \<le> unat (size_cfg (AodvExample_new\<lparr>rng_seed := 12345\<rparr>))"
    and "unat (size_cfg (AodvExample_new\<lparr>rng_seed := 12345\<rparr>)) \<le> 16777214"
    by (simp_all add: AodvExample_new_def)
  from main_success [OF p this, of u] show ?thesis
    by (auto simp: AodvExample_new_def)
qed

lemma size_zero_fails:
  assumes p: "CommandLine_Parse args (AodvExample_new\<lparr>rng_seed := 12345\<rparr>) = Inr cfg"
    and z: "size_cfg cfg = 0"
  shows "\<exists>s. main args u = Inl (IndexOutOfRange, s) \<and> applications s = []"
proof -
  from Parse_new_fresh [OF p] have f: "nodes cfg = []" and a: "applications cfg = []" by simp_all
  have "\<not> (\<exists>code t. main args u = Inr (code, t))"
    using main_completes_iff [of args u] p z by auto
  then obtain e s where e: "main args u = Inl (e, s)" by (cases "main args u") auto
  then have r: "Run u cfg = Inl (e, s)" by (auto simp: main_of_Run [OF p] split: sum.splits)
  from CreateNodes_fresh [OF f] obtain placed where
    c: "CreateNodes cfg = Inr (cfg\<lparr>cout := cout cfg @ [[Str ''Creating '', UInt (unat (size_cfg cfg)),
            Str '' nodes '', Dbl (step cfg), Str '' m apart.'']], nodes := placed\<rparr>)" and
    "map node_id placed = [0..<unat (size_cfg cfg)]"
    by blast
  then have pl: "placed = []" using z by simp
  have "e = IndexOutOfRange \<and> applications s = applications cfg"
    using r
    by (auto simp: Run_def c pl CreateDevices_def InstallInternetStack_def Let_def
          InstallApplications_def GetAddress_def split: sum.splits if_splits)
  then show ?thesis using e a by simp
qed

section \<open>Facts about the trace callbacks\<close>

lemma OnOffTrace_appends:
  "OnOffTrace now source dest out = out @ OnOffTrace now source dest []"
  by (simp add: OnOffTrace_def Let_def split: Address.splits)

lemma OnOffTrace_one_line: "length (OnOffTrace now source dest out) = Suc (length out)"
  by (simp add: OnOffTrace_def Let_def split: Address.splits)

lemma PrintReceivedRoutingPacket_node:
  "PrintReceivedRoutingPacket now (socket\<lparr>rx_queue := q\<rparr>) a = PrintReceivedRoutingPacket now socket a"
  by (simp add: PrintReceivedRoutingPacket_def)

lemma ReceiveRoutingPacket_lines:
  "ReceiveRoutingPacket now socket out =
     (socket\<lparr>rx_queue := []\<rparr>,
      out @ map (\<lambda>a. Str ''AODV '' # PrintReceivedRoutingPacket now socket a) (rx_queue socket))"
proof (induction "rx_queue socket" arbitrary: socket out)
  case Nil
  then have "RecvFrom socket = None" by (simp add: RecvFrom_def)
  moreover have "socket\<lparr>rx_queue := []\<rparr> = socket" using Nil by simp
  ultimately show ?case using Nil by (subst ReceiveRoutingPacket.simps) simp
next
  case (Cons a q)
  let ?s = "socket\<lparr>rx_queue := q\<rparr>"
  have r: "RecvFrom socket = Some (a, ?s)" using Cons(2) [symmetric] by (simp add: RecvFrom_def)
  have q: "q = rx_queue ?s" by simp
  have "ReceiveRoutingPacket now socket out =
        ReceiveRoutingPacket now ?s (out @ [Str ''AODV '' # PrintReceivedRoutingPacket now ?s a])"
    by (subst ReceiveRoutingPacket.simps) (simp add: r)
  also have "\<dots> = (?s\<lparr>rx_queue := []\<rparr>,
      (out @ [Str ''AODV '' # PrintReceivedRoutingPacket now ?s a]) @
        map (\<lambda>a. Str ''AODV '' # PrintReceivedRoutingPacket now ?s a) (rx_queue ?s))"
    by (rule Cons(1) [OF q])
  finally show ?case using Cons(2) [symmetric]
    by (simp add: PrintReceivedRoutingPacket_node)
qed

lemma on_event_appends: "on_event e out = out @ on_event e []"
proof (cases e)
  case (Transmit now source dest)
  then show ?thesis using OnOffTrace_appends [of now source dest out] by simp
next
  case (Receive now socket)
  then show ?thesis by (simp add: ReceiveRoutingPacket_lines)
qed

lemma on_events_appends: "on_events es out = out @ concat (map (\<lambda>e. on_event e []) es)"
proof (induction es arbitrary: out)
  case Nil
  then show ?case by simp
next
  case (Cons e es)
  have "on_events (e # es) out = on_events es (on_event e out)" by simp
  also have "\<dots> = on_event e out @ concat (map (\<lambda>e. on_event e []) es)" by (rule Cons.IH)
  also have "on_event e out = out @ on_event e []" by (rule on_event_appends)
  finally show ?case by simp
qed

section \<open>Facts about the scheduler\<close>

lemma before_irrefl: "\<not> before a a"
  by (simp add: before_def)

lemma before_trans: "before a b \<Longrightarrow> before b c \<Longrightarrow> before a c"
  by (auto simp: before_def)

lemma not_before_trans: "\<not> before b a \<Longrightarrow> \<not> before c b \<Longrightarrow> \<not> before c a"
  by (auto simp: before_def)

lemma before_time: "before a b \<Longrightarrow> ev_time a \<le> ev_time b"
  by (auto simp: before_def)

lemma earliest_None: "earliest q = None \<longleftrightarrow> q = []"
  by (induction q) (auto split: option.splits)

lemma earliest_Some:
  "earliest q = Some e \<Longrightarrow> e \<in> set q \<and> (\<forall>x \<in> set q. \<not> before x e)"
proof (induction q arbitrary: e)
  case Nil
  then show ?case by simp
next
  case (Cons y q)
  show ?case
  proof (cases "earliest q")
    case None
    then have "q = []" by (simp add: earliest_None)
    with Cons.prems None show ?thesis by (simp add: before_irrefl)
  next
    case (Some m)
    from Cons.IH [OF Some] have m: "m \<in> set q" and least: "\<forall>x \<in> set q. \<not> before x m" by simp_all
    show ?thesis
    proof (cases "before m y")
      case True
      then have "e = m" using Cons.prems Some by simp
      moreover have "\<not> before y m" using True by (auto simp: before_def)
      ultimately show ?thesis using m least by simp
    next
      case False
      then have "e = y" using Cons.prems Some by simp
      moreover have "\<forall>x \<in> set q. \<not> before x y"
        using least False not_before_trans by blast
      ultimately show ?thesis by (simp add: before_irrefl)
    qed
  qed
qed

lemma sched_inv_schedule:
  assumes "sched_inv stopTime s" and "clock s \<le> fireTime"
  shows "sched_inv stopTime (schedule a fireTime s)"
  using assms by (auto simp: sched_inv_def schedule_def before_def)

lemma sched_inv_cancel:
  assumes "sched_inv stopTime s"
  shows "sched_inv stopTime (cancel h s)"
  using assms by (auto simp: sched_inv_def cancel_def)

lemma sched_inv_serve:
  assumes "sched_inv stopTime s"
  shows "sched_inv stopTime (serve r s)"
  using assms by (cases r) (simp_all add: sched_inv_schedule sched_inv_cancel)

lemma sched_inv_serve_all:
  "sched_inv stopTime s \<Longrightarrow> sched_inv stopTime (fold serve rs s)"
  by (induction rs arbitrary: s) (simp_all add: sched_inv_serve)

lemma sched_inv_dispatch:
  assumes inv: "sched_inv stopTime s" and e: "earliest (queue s) = Some e"
    and t: "ev_time e \<le> stopTime"
  shows "sched_inv stopTime
           (s\<lparr>clock := ev_time e,
              queue := filter (\<lambda>x. ev_seq x \<noteq> ev_seq e) (queue s),
              dispatched := dispatched s @ [e]\<rparr>)"
proof -
  from earliest_Some [OF e] have mem: "e \<in> set (queue s)"
    and least: "\<forall>x \<in> set (queue s). \<not> before x e" by simp_all
  have after: "\<forall>x \<in> set (queue s). ev_seq x \<noteq> ev_seq e \<longrightarrow> before e x"
    using least by (auto simp: before_def)
  then have after_time: "\<forall>x \<in> set (queue s). ev_seq x \<noteq> ev_seq e \<longrightarrow> ev_time e \<le> ev_time x"
    using before_time by blast
  have old: "\<forall>d \<in> set (dispatched s). before d e"
    using inv mem by (simp add: sched_inv_def)
  then have old_time: "\<forall>d \<in> set (dispatched s). ev_time d \<le> ev_time e"
    using before_time by blast
  show ?thesis
    unfolding sched_inv_def
  proof (intro conjI)
    show "\<forall>x \<in> set (queue (s\<lparr>clock := ev_time e,
              queue := filter (\<lambda>x. ev_seq x \<noteq> ev_seq e) (queue s),
              dispatched := dispatched s @ [e]\<rparr>)).
            ev_seq x < next_seq (s\<lparr>clock := ev_time e,
              queue := filter (\<lambda>x. ev_seq x \<noteq> ev_seq e) (queue s),
              dispatched := dispatched s @ [e]\<rparr>) \<and>
            clock (s\<lparr>clock := ev_time e,
              queue := filter (\<lambda>x. ev_seq x \<noteq> ev_seq e) (queue s),
              dispatched := dispatched s @ [e]\<rparr>) \<le> ev_time x"
      using inv after_time by (auto simp: sched_inv_def)
    show "\<forall>d \<in> set (dispatched (s\<lparr>clock := ev_time e,
              queue := filter (\<lambda>x. ev_seq x \<noteq> ev_seq e) (queue s),
              dispatched := dispatched s @ [e]\<rparr>)).
            ev_time d \<le> clock (s\<lparr>clock := ev_time e,
              queue := filter (\<lambda>x. ev_seq x \<noteq> ev_seq e) (queue s),
              dispatched := dispatched s @ [e]\<rparr>) \<and>
            ev_seq d < next_seq (s\<lparr>clock := ev_time e,
              queue := filter (\<lambda>x. ev_seq x \<noteq> ev_seq e) (queue s),
              dispatched := dispatched s @ [e]\<rparr>) \<and>
            ev_time d \<le> stopTime"
      using inv mem t old_time by (auto simp: sched_inv_def)
    show "\<forall>d \<in> set (dispatched (s\<lparr>clock := ev_time e,
              queue := filter (\<lambda>x. ev_seq x \<noteq> ev_seq e) (queue s),
              dispatched := dispatched s @ [e]\<rparr>)).
          \<forall>x \<in> set (queue (s\<lparr>clock := ev_time e,
              queue := filter (\<lambda>x. ev_seq x \<noteq> ev_seq e) (queue s),
              dispatched := dispatched s @ [e]\<rparr>)). before d x"
      using inv after by (auto simp: sched_inv_def)
    show "sorted_wrt before (dispatched (s\<lparr>clock := ev_time e,
              queue := filter (\<lambda>x. ev_seq x \<noteq> ev_seq e) (queue s),
              dispatched := dispatched s @ [e]\<rparr>))"
      using inv old by (simp add: sched_inv_def sorted_wrt_append)
  qed
qed

lemma sched_inv_run:
  "sched_inv stopTime s \<Longrightarrow> sched_inv stopTime (run act stopTime fuel s)"
proof (induction fuel arbitrary: s)
  case 0
  then show ?case by simp
next
  case (Suc fuel)
  show ?case
  proof (cases "earliest (queue s)")
    case None
    then show ?thesis using Suc.prems by (simp add: sched_inv_def)
  next
    case (Some e)
    show ?thesis
    proof (cases "stopTime < ev_time e")
      case True
      then show ?thesis using Suc.prems Some by (simp add: sched_inv_def)
    next
      case False
      then have "ev_time e \<le> stopTime" by simp
      from sched_inv_dispatch [OF Suc.prems Some this]
      have "sched_inv stopTime
              (fold serve (act (ev_action e) (ev_time e))
                 (s\<lparr>clock := ev_time e,
                    queue := filter (\<lambda>x. ev_seq x \<noteq> ev_seq e) (queue s),
                    dispatched := dispatched s @ [e]\<rparr>))"
        by (rule sched_inv_serve_all)
      from Suc.IH [OF this] show ?thesis using Some False by simp
    qed
  qed
qed

lemma sched_inv_setup_aux:
  "sched_inv stopTime s \<Longrightarrow> clock s = 0 \<Longrightarrow>
   sched_inv stopTime (fold (\<lambda>(a, fireTime). schedule a fireTime) evs s)"
proof (induction evs arbitrary: s)
  case Nil
  then show ?case by simp
next
  case (Cons x evs)
  obtain a f where x: "x = (a, f)" by (cases x)
  have "sched_inv stopTime (schedule a f s)"
    using Cons.prems by (intro sched_inv_schedule) simp_all
  moreover have "clock (schedule a f s) = 0" using Cons.prems by (simp add: schedule_def)
  ultimately show ?case using Cons.IH x by simp
qed

lemma sched_inv_setup: "sched_inv stopTime (scheduled_at_setup evs)"
  unfolding scheduled_at_setup_def
  by (rule sched_inv_setup_aux) (simp_all add: sched_inv_def Scheduler_new_def)

lemma sorted_by_time: "sorted_wrt before ds \<Longrightarrow> sorted_wrt (\<lambda>a b. ev_time a \<le> ev_time b) ds"
  by (induction ds) (auto simp: before_def)

section \<open>The claims\<close>

text \<open>
  Claim C1. For every node count \<open>size\<close> and spacing \<open>step\<close>, CreateNodes on a fresh
  object succeeds and leaves \<open>size\<close> nodes; node \<open>i\<close>, for every \<open>i\<close> below \<open>size\<close>, is at
  \<open>((i mod W)\<cdot>step, (i div W)\<cdot>step)\<close> for the row width \<open>W = size\<close>, which is the point
  \<open>(i\<cdot>step, 0)\<close> of a line.
\<close>

theorem CreateNodes_grid_positions:
  assumes "nodes t = []" and "i < unat (size_cfg t)"
  shows "\<exists>t'. CreateNodes t = Inr t' \<and> length (nodes t') = unat (size_cfg t) \<and>
           mobility (nodes t' ! i) =
             Some (real (i mod unat (size_cfg t)) * step t, real (i div unat (size_cfg t)) * step t) \<and>
           mobility (nodes t' ! i) = Some (real i * step t, 0)"
proof -
  let ?N = "unat (size_cfg t)"
  let ?created = "NodeContainer_Create ?N []"
  have len: "length ?created = ?N" by (simp add: NodeContainer_Create_def)
  then have "0 + ?N \<le> length ?created" by simp
  from name_nodes_total [OF this] obtain named where
    nm: "name_nodes ?N 0 ?created = Inr named" and ln: "length named = ?N"
    using len by auto
  let ?g = "\<lparr>MinX = 0, MinY = 0, DeltaX = step t, DeltaY = 0,
             GridWidth = size_cfg t, LayoutType = ''RowFirst''\<rparr>"
  have "LayoutType ?g = ''RowFirst''" by simp
  moreover have "named \<noteq> [] \<Longrightarrow> unat (GridWidth ?g) \<noteq> 0" using ln assms(2) by simp
  ultimately obtain placed where
    pl: "MobilityHelper_Install ?g 0 named = Inr placed" and lp: "length placed = length named" and
    pos: "\<forall>k < length named. mobility (placed ! k) =
            Some (MinX ?g + DeltaX ?g * real ((0 + k) mod unat (GridWidth ?g)),
                  MinY ?g + DeltaY ?g * real ((0 + k) div unat (GridWidth ?g)))"
    using MobilityHelper_Install_row [of ?g named 0] by blast
  have res: "CreateNodes t = Inr (t\<lparr>cout := cout t @
                  [[Str ''Creating '', UInt ?N, Str '' nodes '', Dbl (step t), Str '' m apart.'']],
                  nodes := placed\<rparr>)"
    using nm pl assms(1) by (simp add: CreateNodes_def Let_def)
  have "mobility (placed ! i) = Some (step t * real (i mod ?N), 0)"
    using pos assms(2) ln by simp
  moreover have "i mod ?N = i" and "i div ?N = 0" using assms(2) by simp_all
  ultimately show ?thesis
    using res lp ln by (simp add: mult.commute)
qed

theorem CreateNodes_grid_positions_witness:
  "\<exists>t'. CreateNodes (AodvExample_new\<lparr>size_cfg := 4\<rparr>) = Inr t' \<and> length (nodes t') = 4 \<and>
     mobility (nodes t' ! 3) = Some (300, 0)"
  using CreateNodes_grid_positions [of "AodvExample_new\<lparr>size_cfg := 4\<rparr>" 3]
  by (simp add: AodvExample_new_def)

text \<open>
  Claim C2. In every run that completes, exactly one traffic flow has been created: an
  OnOff application on node 0, addressed to port 80 of the address of node \<open>size - 1\<close>,
  whose start time is the value drawn from the uniform random variable between 1 and 2,
  \<open>GetValue 1 2 u = 1 + u\<close> for the number \<open>u\<close> in \<open>[0, 1)\<close> that the random stream
  yields, hence in \<open>[1, 2)\<close>, and whose stop time is 10, whatever the total simulation
  time is. A run completes exactly for
  \<open>1 \<le> size \<le> 16777214\<close> (\<open>main_completes_iff\<close>).
\<close>

theorem one_flow_per_run:
  assumes "main args u = Inr (code, t)" and "0 \<le> u" and "u < 1"
  shows "\<exists>app start. applications t = [app] \<and> app_node app = 0 \<and>
           app_protocol app = ''ns3::UdpSocketFactory'' \<and>
           node_id (nodes t ! 0) = 0 \<and>
           fst (interfaces t ! (unat (size_cfg t) - 1)) = unat (size_cfg t) - 1 \<and>
           Remote app = InetSocketAddress (snd (interfaces t ! (unat (size_cfg t) - 1))) 80 \<and>
           StartTime app = Some start \<and> start = GetValue 1 2 u \<and> start = 1 + u \<and>
           1 \<le> start \<and> start < 2 \<and> StopTime app = Some 10"
proof -
  let ?N = "unat (size_cfg t)"
  from completed_run [OF assms(1)] have
    lo: "1 \<le> ?N" and ids: "map node_id (nodes t) = [0..<?N]" and
    f: "map fst (interfaces t) = [0..<?N]" and
    s: "map snd (interfaces t) = map (\<lambda>k. 0x0A000000 OR word_of_nat k) [1..<1 + ?N]" and
    a: "applications t =
           [\<lparr>app_node = 0, app_protocol = ''ns3::UdpSocketFactory'', OnTime = 1, OffTime = 0,
             Remote = InetSocketAddress (0x0A000000 OR word_of_nat ?N) 80,
             StartTime = Some (GetValue 1 2 u), StopTime = Some 10\<rparr>]"
    by simp_all
  have li: "interfaces t ! (?N - 1) = (?N - 1, 0x0A000000 OR word_of_nat ?N)"
    using lo f s by (rule last_interface)
  have ln: "length (nodes t) = ?N" using ids by (metis length_map length_upt minus_nat.diff_0)
  have "node_id (nodes t ! 0) = map node_id (nodes t) ! 0" using ln lo by simp
  also have "\<dots> = 0" unfolding ids using lo by simp
  finally have n0: "node_id (nodes t ! 0) = 0" .
  have "GetValue 1 2 u = 1 + u \<and> 1 \<le> GetValue 1 2 u \<and> GetValue 1 2 u < 2"
    using assms(2,3) by (simp add: GetValue_def)
  then show ?thesis using a li n0 by simp
qed

theorem one_flow_per_run_witness:
  "\<exists>t app start. main [(''size'', UintFlag 4), (''time'', DoubleFlag 50)] (1 / 2) = Inr (0, t) \<and>
     applications t = [app] \<and> app_node app = 0 \<and>
     Remote app = InetSocketAddress (snd (interfaces t ! 3)) 80 \<and>
     StartTime app = Some start \<and> start = 3 / 2 \<and> 1 \<le> start \<and> start < 2 \<and>
     StopTime app = Some 10"
proof -
  let ?args = "[(''size'', UintFlag 4), (''time'', DoubleFlag 50)]"
  have p: "CommandLine_Parse ?args (AodvExample_new\<lparr>rng_seed := 12345\<rparr>) =
             Inr (AodvExample_new\<lparr>rng_seed := 12345, size_cfg := 4, totalTime := 50\<rparr>)"
    by simp
  from main_success [OF p, of "1 / 2"] obtain t where
    m: "main ?args (1 / 2) = Inr (0, t)" and sz: "size_cfg t = 4"
    by auto
  from one_flow_per_run [OF m] sz m show ?thesis by auto
qed

text \<open>
  Claim C7. One execution of the program calls \<^verbatim>\<open>Simulator::Run\<close> twice: the first call
  is the last but one of InstallApplications, the second follows in Run.
\<close>

theorem Simulator_Run_invoked_twice:
  assumes "main args u = Inr (code, t)"
  shows "length (filter (\<lambda>c. c = Simulator_Run) (calls t)) = 2 \<and>
         (\<exists>t2 t3. InstallApplications u t2 = Inr t3 \<and>
            calls t3 = calls t2 @ concat (map recvSink_calls (nodes t2)) @
              [Simulator_Stop (totalTime t2), Simulator_Run, Simulator_Destroy] \<and>
            calls t = calls t3 @ [Simulator_Stop (totalTime t3), Simulator_Run, Simulator_Destroy])"
proof -
  from completed_run [OF assms] have
    c: "calls t = concat (map recvSink_calls (nodes t)) @
           [Simulator_Stop (totalTime t), Simulator_Run, Simulator_Destroy,
            Simulator_Stop (totalTime t), Simulator_Run, Simulator_Destroy]"
    by simp
  have "filter (\<lambda>c. c = Simulator_Run) (concat (map recvSink_calls (nodes t))) = []"
    using no_Run_in_sink_calls [of "nodes t"] by (auto simp: filter_empty_conv)
  then have two: "length (filter (\<lambda>c. c = Simulator_Run) (calls t)) = 2"
    unfolding c by simp
  from main_result [OF assms] obtain cfg where r: "Run u cfg = Inr t" by blast
  from Run_result [OF r] obtain t2 t3 where
    a: "InstallApplications u t2 = Inr t3" and
    e: "t = t3\<lparr>cout := cout t3 @
                      [[Str ''Starting simulation for '', Dbl (totalTime t3), Str '' s ...'']],
                 calls := calls t3 @
                      [Simulator_Stop (totalTime t3), Simulator_Run, Simulator_Destroy]\<rparr>"
    by blast
  from InstallApplications_result [OF a] have
    "calls t3 = calls t2 @ concat (map recvSink_calls (nodes t2)) @
              [Simulator_Stop (totalTime t2), Simulator_Run, Simulator_Destroy]"
    by auto
  moreover have "calls t = calls t3 @ [Simulator_Stop (totalTime t3), Simulator_Run, Simulator_Destroy]"
    by (subst e) simp
  ultimately show ?thesis using two a by blast
qed

theorem Simulator_Run_invoked_twice_witness:
  "\<exists>t. main [] 0 = Inr (0, t) \<and> length (filter (\<lambda>c. c = Simulator_Run) (calls t)) = 2"
proof -
  have p: "CommandLine_Parse [] (AodvExample_new\<lparr>rng_seed := 12345\<rparr>) =
             Inr (AodvExample_new\<lparr>rng_seed := 12345\<rparr>)"
    by simp
  have "1 \<le> unat (size_cfg (AodvExample_new\<lparr>rng_seed := 12345\<rparr>))"
    and "unat (size_cfg (AodvExample_new\<lparr>rng_seed := 12345\<rparr>)) \<le> 16777214"
    by (simp_all add: AodvExample_new_def)
  from main_success [OF p this, of 0] obtain t where m: "main [] 0 = Inr (0, t)" by blast
  from Simulator_Run_invoked_twice [OF m] m show ?thesis by blast
qed

text \<open>
  Claim C9. Before the simulator is first run, every node \<open>i\<close> below \<open>size\<close> has opened
  a receive endpoint: a UDP socket on the node, bound to port 80 of any address, with the
  receive callback set; the three calls that open it precede the first
  \<^verbatim>\<open>Simulator::Run\<close>.
\<close>

theorem sinks_open_before_simulation:
  assumes "main args u = Inr (code, t)" and "i < unat (size_cfg t)"
  shows "length (sockets t) = unat (size_cfg t) \<and>
         node_id (nodes t ! i) = i \<and>
         sock_node (sockets t ! i) = i \<and>
         sock_factory (sockets t ! i) = ''ns3::UdpSocketFactory'' \<and>
         sock_local (sockets t ! i) = Some (0, 80) \<and>
         recv_callback (sockets t ! i) = Some ''AodvExample::ReceiveRoutingPacket'' \<and>
         CreateSocket i ''ns3::UdpSocketFactory''
           \<in> set (takeWhile (\<lambda>c. c \<noteq> Simulator_Run) (calls t)) \<and>
         Bind i 0 80 \<in> set (takeWhile (\<lambda>c. c \<noteq> Simulator_Run) (calls t)) \<and>
         SetRecvCallback i ''AodvExample::ReceiveRoutingPacket''
           \<in> set (takeWhile (\<lambda>c. c \<noteq> Simulator_Run) (calls t))"
proof -
  let ?N = "unat (size_cfg t)"
  let ?opened = "concat (map recvSink_calls (nodes t))"
  from completed_run [OF assms(1)] have
    ids: "map node_id (nodes t) = [0..<?N]" and
    s: "sockets t = map recvSink (nodes t)" and
    c: "calls t = ?opened @
           [Simulator_Stop (totalTime t), Simulator_Run, Simulator_Destroy,
            Simulator_Stop (totalTime t), Simulator_Run, Simulator_Destroy]"
    by simp_all
  have ln: "length (nodes t) = ?N" using ids by (metis length_map length_upt minus_nat.diff_0)
  have "node_id (nodes t ! i) = map node_id (nodes t) ! i" using ln assms(2) by simp
  also have "\<dots> = i" unfolding ids using assms(2) by simp
  finally have ni: "node_id (nodes t ! i) = i" .
  have si: "sockets t ! i = recvSink (nodes t ! i)" using s ln assms(2) by simp
  have "\<And>x. x \<in> set ?opened \<Longrightarrow> x \<noteq> Simulator_Run"
    using no_Run_in_sink_calls [of "nodes t"] by blast
  then have "takeWhile (\<lambda>c. c \<noteq> Simulator_Run) (calls t) =
        ?opened @ takeWhile (\<lambda>c. c \<noteq> Simulator_Run)
           [Simulator_Stop (totalTime t), Simulator_Run, Simulator_Destroy,
            Simulator_Stop (totalTime t), Simulator_Run, Simulator_Destroy]"
    unfolding c by (rule takeWhile_append2)
  then have sub: "set ?opened \<subseteq> set (takeWhile (\<lambda>c. c \<noteq> Simulator_Run) (calls t))"
    by auto
  have "nodes t ! i \<in> set (nodes t)" using ln assms(2) by simp
  then have "set (recvSink_calls (nodes t ! i)) \<subseteq> set ?opened" by auto
  with sub have "set (recvSink_calls (nodes t ! i))
                   \<subseteq> set (takeWhile (\<lambda>c. c \<noteq> Simulator_Run) (calls t))" by blast
  then show ?thesis using ni si s ln by (simp add: recvSink_def recvSink_calls_def)
qed

theorem sinks_open_before_simulation_witness:
  "\<exists>t. main [] 0 = Inr (0, t) \<and> length (sockets t) = 10 \<and>
       sock_node (sockets t ! 9) = 9 \<and> sock_local (sockets t ! 9) = Some (0, 80) \<and>
       Bind 9 0 80 \<in> set (takeWhile (\<lambda>c. c \<noteq> Simulator_Run) (calls t))"
proof -
  have p: "CommandLine_Parse [] (AodvExample_new\<lparr>rng_seed := 12345\<rparr>) =
             Inr (AodvExample_new\<lparr>rng_seed := 12345\<rparr>)"
    by simp
  have "1 \<le> unat (size_cfg (AodvExample_new\<lparr>rng_seed := 12345\<rparr>))"
    and "unat (size_cfg (AodvExample_new\<lparr>rng_seed := 12345\<rparr>)) \<le> 16777214"
    by (simp_all add: AodvExample_new_def)
  from main_success [OF p this, of 0] obtain t where
    m: "main [] 0 = Inr (0, t)" and sz: "size_cfg t = 10"
    by (auto simp: AodvExample_new_def)
  from sinks_open_before_simulation [OF m, of 9] sz m show ?thesis by auto
qed

text \<open>
  Claim C10. Without command-line flags the parameters keep the constructor's values:
  size 10, step 100, time 100, pcap false, printRoutes true. In a run that completes with
  \<open>printRoutes\<close> set, a routing-table print into \<open>aodv.routes\<close> is scheduled at 8
  seconds for every node, one per node; with \<open>printRoutes\<close> unset none is scheduled.
\<close>

theorem defaults_and_routing_dump:
  assumes "main args u = Inr (code, t)"
  shows "(\<exists>c. Configure [] AodvExample_new = Inr (True, c) \<and> size_cfg c = 10 \<and> step c = 100 \<and>
            totalTime c = 100 \<and> \<not> pcap c \<and> printRoutes c) \<and>
         (args = [] \<longrightarrow> size_cfg t = 10 \<and> step t = 100 \<and> totalTime t = 100 \<and>
            \<not> pcap t \<and> printRoutes t) \<and>
         (printRoutes t \<longrightarrow>
            routing_prints t = map (\<lambda>i. (8, i, ''aodv.routes'')) [0..<unat (size_cfg t)]) \<and>
         (\<not> printRoutes t \<longrightarrow> routing_prints t = [])"
proof -
  have a: "\<exists>c. Configure [] AodvExample_new = Inr (True, c) \<and> size_cfg c = 10 \<and> step c = 100 \<and>
            totalTime c = 100 \<and> \<not> pcap c \<and> printRoutes c"
    by (simp add: Configure_def AodvExample_new_def)
  have b: "args = [] \<longrightarrow> size_cfg t = 10 \<and> step t = 100 \<and> totalTime t = 100 \<and>
            \<not> pcap t \<and> printRoutes t"
    using default_run [of u] assms by auto
  from completed_run [OF assms] have
    ids: "map node_id (nodes t) = [0..<unat (size_cfg t)]" and
    r: "routing_prints t =
           (if printRoutes t then map (\<lambda>n. (8, node_id n, ''aodv.routes'')) (nodes t) else [])"
    by simp_all
  have "map (\<lambda>n. (8 :: real, node_id n, ''aodv.routes'')) (nodes t) =
        map (\<lambda>i. (8, i, ''aodv.routes'')) (map node_id (nodes t))"
    by (simp add: comp_def)
  then have c: "printRoutes t \<longrightarrow>
            routing_prints t = map (\<lambda>i. (8, i, ''aodv.routes'')) [0..<unat (size_cfg t)]"
    using r ids by simp
  have d: "\<not> printRoutes t \<longrightarrow> routing_prints t = []" using r by simp
  from a b c d show ?thesis by blast
qed

theorem defaults_and_routing_dump_witness:
  "\<exists>t. main [] 0 = Inr (0, t) \<and> size_cfg t = 10 \<and> step t = 100 \<and> totalTime t = 100 \<and>
       \<not> pcap t \<and> printRoutes t \<and>
       routing_prints t = map (\<lambda>i. (8, i, ''aodv.routes'')) [0..<10]"
proof -
  from default_run [of 0] obtain t where m: "main [] 0 = Inr (0, t)" by blast
  from defaults_and_routing_dump [OF m] m show ?thesis by auto
qed

text \<open>
  Claim C6. When InstallInternetStack has completed on the devices of CreateDevices, the
  interface list names every node once, in order, each with one address; the addresses
  are pairwise distinct and lie in 10.0.0.0/255.0.0.0; InstallApplications, the only step
  that follows, leaves them unchanged.
\<close>

theorem InstallInternetStack_addresses:
  assumes "InstallInternetStack (CreateDevices t) = Inr t'"
  shows "map fst (interfaces t') = map node_id (nodes t') \<and>
         distinct (map snd (interfaces t')) \<and>
         (\<forall>a \<in> set (map snd (interfaces t')). IsMatch 0xFF000000 a 0x0A000000) \<and>
         (\<forall>u t''. InstallApplications u t' = Inr t'' \<longrightarrow> interfaces t'' = interfaces t')"
proof -
  let ?n = "length (devices (CreateDevices t))"
  let ?g = "\<lambda>k. (0x0A000000 :: 32 word) OR word_of_nat k"
  from InstallInternetStack_result [OF assms] obtain ifs where
    a: "Assign (SetBase 0x0A000000 0xFF000000) (devices (CreateDevices t)) = Inr ifs" and
    i: "interfaces t' = ifs" and
    n: "map node_id (nodes t') = map node_id (nodes t)"
    by (auto simp: CreateDevices_def Let_def comp_def)
  from Assign_props [OF a] have
    f: "map fst ifs = map dev_node (devices (CreateDevices t))" and
    s: "map snd ifs = map ?g [1..<1 + ?n]" and
    b: "\<forall>k. 1 \<le> k \<and> k < 1 + ?n \<longrightarrow> k \<le> 16777214"
    by (simp_all add: SetBase_def)
  have "map dev_node (devices (CreateDevices t)) = map node_id (nodes t)"
    by (simp add: CreateDevices_def Let_def comp_def)
  then have one: "map fst (interfaces t') = map node_id (nodes t')" using f i n by simp
  have small: "k < 2 ^ 24" if "k \<in> set [1..<1 + ?n]" for k
  proof -
    from that have "1 \<le> k \<and> k < 1 + ?n" by auto
    with b have "k \<le> 16777214" by blast
    then show ?thesis by simp
  qed
  have "inj_on ?g (set [1..<1 + ?n])"
  proof (rule inj_onI)
    fix j k assume "j \<in> set [1..<1 + ?n]" and "k \<in> set [1..<1 + ?n]" and "?g j = ?g k"
    then show "j = k" using address_inj [OF small small] by blast
  qed
  then have two: "distinct (map snd (interfaces t'))"
    unfolding i s by (simp add: distinct_map)
  have three: "\<forall>a \<in> set (map snd (interfaces t')). IsMatch 0xFF000000 a 0x0A000000"
    unfolding i s
  proof
    fix a assume "a \<in> set (map ?g [1..<1 + ?n])"
    then obtain k where k: "k \<in> set [1..<1 + ?n]" and "a = ?g k" by auto
    then show "IsMatch 0xFF000000 a 0x0A000000"
      using subnet_of_host [OF small [OF k]] by (simp add: IsMatch_def)
  qed
  have four: "\<forall>u t''. InstallApplications u t' = Inr t'' \<longrightarrow> interfaces t'' = interfaces t'"
    by (auto dest: InstallApplications_result)
  from one two three four show ?thesis by blast
qed

theorem InstallInternetStack_addresses_witness:
  "\<exists>t'. InstallInternetStack (CreateDevices (AodvExample_new\<lparr>nodes :=
            [\<lparr>node_id = 0, node_name = ''node-0'', mobility = Some (0, 0), routing = None\<rparr>,
             \<lparr>node_id = 1, node_name = ''node-1'', mobility = Some (100, 0), routing = None\<rparr>]\<rparr>)) = Inr t' \<and>
        interfaces t' = [(0, 0x0A000001), (1, 0x0A000002)] \<and>
        map fst (interfaces t') = map node_id (nodes t') \<and>
        distinct (map snd (interfaces t')) \<and>
        IsMatch 0xFF000000 (snd (interfaces t' ! 1)) 0x0A000000"
proof -
  let ?t = "AodvExample_new\<lparr>nodes :=
            [\<lparr>node_id = 0, node_name = ''node-0'', mobility = Some (0, 0), routing = None\<rparr>,
             \<lparr>node_id = 1, node_name = ''node-1'', mobility = Some (100, 0), routing = None\<rparr>]\<rparr>"
  have "\<exists>t'. InstallInternetStack (CreateDevices ?t) = Inr t' \<and>
          interfaces t' = [(0, 0x0A000001), (1, 0x0A000002)]"
    by (simp add: InstallInternetStack_def CreateDevices_def Let_def AodvExample_new_def
          SetBase_def NewAddress_def)
  then obtain t' where r: "InstallInternetStack (CreateDevices ?t) = Inr t'"
    and i: "interfaces t' = [(0, 0x0A000001), (1, 0x0A000002)]" by blast
  from InstallInternetStack_addresses [OF r] r i show ?thesis by auto
qed

text \<open>
  Claim C8, as amended. The program returns 0 whenever it returns. Invalid flags end the
  process inside the command-line parser, and only they do so with that error; at that
  moment no topology has been built: there are no nodes, devices, interfaces, sockets or
  applications, nothing is scheduled, no library call of Run has been made and nothing
  has been printed. Configure returns true whenever it returns, so the branch of main
  that reports a failed configuration is never taken.
\<close>

theorem main_exit_behaviour:
  "main args u \<noteq> Inl (ConfigurationFailed, s) \<and>
   (Configure args t0 = Inr (ok, t1) \<longrightarrow> ok) \<and>
   (main args u = Inr (code, t) \<longrightarrow> code = 0) \<and>
   ((\<exists>s'. main args u = Inl (CommandLineExit, s')) =
      (\<exists>s'. CommandLine_Parse args (AodvExample_new\<lparr>rng_seed := 12345\<rparr>) = Inl (CommandLineExit, s'))) \<and>
   ((\<exists>x. CommandLine_Parse args (AodvExample_new\<lparr>rng_seed := 12345\<rparr>) = Inl x) =
      (\<exists>s'. CommandLine_Parse args (AodvExample_new\<lparr>rng_seed := 12345\<rparr>) = Inl (CommandLineExit, s'))) \<and>
   (CommandLine_Parse args (AodvExample_new\<lparr>rng_seed := 12345\<rparr>) = Inl x \<longrightarrow> main args u = Inl x) \<and>
   (main args u = Inl (CommandLineExit, s) \<longrightarrow>
      nodes s = [] \<and> devices s = [] \<and> interfaces s = [] \<and> sockets s = [] \<and>
      applications s = [] \<and> routing_prints s = [] \<and> trace_sinks s = [] \<and>
      calls s = [] \<and> cout s = [])"
proof -
  let ?p = "CommandLine_Parse args (AodvExample_new\<lparr>rng_seed := 12345\<rparr>)"
  have b: "Configure args t0 = Inr (ok, t1) \<longrightarrow> ok"
    by (auto simp: Configure_def split: sum.splits)
  have c: "main args u = Inr (code, t) \<longrightarrow> code = 0"
    using main_result by blast
  have e: "(\<exists>x. ?p = Inl x) = (\<exists>s'. ?p = Inl (CommandLineExit, s'))"
    using CommandLine_Parse_error by (metis surj_pair)
  have f: "?p = Inl x \<longrightarrow> main args u = Inl x"
    by (simp add: main_def Configure_def)
  have a: "main args u \<noteq> Inl (ConfigurationFailed, s)"
    and d: "(\<exists>s'. main args u = Inl (CommandLineExit, s')) = (\<exists>s'. ?p = Inl (CommandLineExit, s'))"
    and g: "main args u = Inl (CommandLineExit, s) \<longrightarrow>
      nodes s = [] \<and> devices s = [] \<and> interfaces s = [] \<and> sockets s = [] \<and>
      applications s = [] \<and> routing_prints s = [] \<and> trace_sinks s = [] \<and>
      calls s = [] \<and> cout s = []"
  proof -
    show "main args u \<noteq> Inl (ConfigurationFailed, s)"
    proof (cases ?p)
      case (Inl y)
      obtain e' s' where y: "y = (e', s')" by (cases y)
      have "main args u = Inl (e', s')" using Inl y by (simp add: main_def Configure_def)
      moreover have "e' = CommandLineExit" using Inl y CommandLine_Parse_error by blast
      ultimately show ?thesis by simp
    next
      case (Inr cfg)
      show ?thesis using Run_error [of u cfg]
        by (auto simp: main_of_Run [OF Inr] split: sum.splits)
    qed
    show "(\<exists>s'. main args u = Inl (CommandLineExit, s')) = (\<exists>s'. ?p = Inl (CommandLineExit, s'))"
    proof (cases ?p)
      case (Inl y)
      then have "main args u = Inl y" by (simp add: main_def Configure_def)
      then show ?thesis using Inl by simp
    next
      case (Inr cfg)
      show ?thesis using Run_error [of u cfg] Inr
        by (auto simp: main_of_Run [OF Inr] split: sum.splits)
    qed
    show "main args u = Inl (CommandLineExit, s) \<longrightarrow>
      nodes s = [] \<and> devices s = [] \<and> interfaces s = [] \<and> sockets s = [] \<and>
      applications s = [] \<and> routing_prints s = [] \<and> trace_sinks s = [] \<and>
      calls s = [] \<and> cout s = []"
    proof (cases ?p)
      case (Inl y)
      show ?thesis
      proof
        assume m: "main args u = Inl (CommandLineExit, s)"
        have "main args u = Inl y" using Inl by (simp add: main_def Configure_def)
        with m Inl have "?p = Inl (CommandLineExit, s)" by simp
        from CommandLine_Parse_abort_frame [OF this] show
          "nodes s = [] \<and> devices s = [] \<and> interfaces s = [] \<and> sockets s = [] \<and>
           applications s = [] \<and> routing_prints s = [] \<and> trace_sinks s = [] \<and>
           calls s = [] \<and> cout s = []"
          by (simp add: AodvExample_new_def)
      qed
    next
      case (Inr cfg)
      show ?thesis using Run_error [of u cfg]
        by (auto simp: main_of_Run [OF Inr] split: sum.splits)
    qed
  qed
  from a b c d e f g show ?thesis by blast
qed

theorem main_exit_behaviour_witness:
  "main [(''size'', UintFlag 5), (''nodes'', UintFlag 5)] 0 =
     Inl (CommandLineExit, AodvExample_new\<lparr>rng_seed := 12345, size_cfg := 5\<rparr>) \<and>
   main [(''size'', UintFlag 5), (''nodes'', UintFlag 5)] 0 \<noteq>
     Inl (ConfigurationFailed, AodvExample_new\<lparr>rng_seed := 12345, size_cfg := 5\<rparr>) \<and>
   nodes (AodvExample_new\<lparr>rng_seed := 12345, size_cfg := 5\<rparr>) = [] \<and>
   calls (AodvExample_new\<lparr>rng_seed := 12345, size_cfg := 5\<rparr>) = [] \<and>
   (\<exists>t. main [] 0 = Inr (0, t))"
proof -
  let ?args = "[(''size'', UintFlag 5), (''nodes'', UintFlag 5)]"
  let ?s = "AodvExample_new\<lparr>rng_seed := 12345, size_cfg := 5\<rparr>"
  have p: "CommandLine_Parse ?args (AodvExample_new\<lparr>rng_seed := 12345\<rparr>) = Inl (CommandLineExit, ?s)"
    by simp
  from default_run [of 0] obtain t where m: "main [] 0 = Inr (0, t)" by blast
  from main_exit_behaviour [of ?args 0 ?s _ _ _ _ _ "(CommandLineExit, ?s)"] p
  have 1: "main ?args 0 = Inl (CommandLineExit, ?s)"
    and 2: "main ?args 0 \<noteq> Inl (ConfigurationFailed, ?s)"
    and 3: "main ?args 0 = Inl (CommandLineExit, ?s) \<longrightarrow> nodes ?s = [] \<and> calls ?s = []"
    by blast+
  from main_exit_behaviour [of "[]" 0 _ _ _ _ 0 t] m have "(0::int) = 0" by blast
  with 1 2 3 m show ?thesis by blast
qed

text \<open>
  The claim as stated fails: with a flag that is not registered the parser ends the
  process, and the failure branch of main is not the one taken.
\<close>

theorem Configure_failure_branch_counterexample:
  "CommandLine_Parse [(''nodes'', UintFlag 5)] (AodvExample_new\<lparr>rng_seed := 12345\<rparr>) =
     Inl (CommandLineExit, AodvExample_new\<lparr>rng_seed := 12345\<rparr>) \<and>
   Configure [(''nodes'', UintFlag 5)] AodvExample_new =
     Inl (CommandLineExit, AodvExample_new\<lparr>rng_seed := 12345\<rparr>) \<and>
   main [(''nodes'', UintFlag 5)] 0 =
     Inl (CommandLineExit, AodvExample_new\<lparr>rng_seed := 12345\<rparr>) \<and>
   main [(''nodes'', UintFlag 5)] 0 \<noteq>
     Inl (ConfigurationFailed, AodvExample_new\<lparr>rng_seed := 12345\<rparr>)"
  by (simp add: main_def Configure_def)

text \<open>
  Claim C4, as amended. With \<open>size = 1\<close> the topology builds without error (one node at
  the origin with the address 10.0.0.1), exactly one flow is scheduled, from node 0 to
  its own address, and the program completes with exit code 0, the simulator stopped at
  \<open>totalTime\<close> before each run. (With \<open>size = 0\<close> the model ends in an out-of-range
  container access, \<open>size_zero_fails\<close>; the amended claim says nothing about it.)
\<close>

theorem single_node_run:
  assumes p: "CommandLine_Parse args (AodvExample_new\<lparr>rng_seed := 12345\<rparr>) = Inr cfg"
    and one: "size_cfg cfg = 1"
  shows "\<exists>t app. main args u = Inr (0, t) \<and> length (nodes t) = 1 \<and>
           mobility (nodes t ! 0) = Some (0, 0) \<and>
           interfaces t = [(0, 0x0A000001)] \<and>
           applications t = [app] \<and> app_node app = 0 \<and>
           Remote app = InetSocketAddress 0x0A000001 80 \<and>
           StopTime app = Some 10 \<and>
           calls t = recvSink_calls (nodes t ! 0) @
             [Simulator_Stop (totalTime cfg), Simulator_Run, Simulator_Destroy,
              Simulator_Stop (totalTime cfg), Simulator_Run, Simulator_Destroy]"
proof -
  have lo: "1 \<le> unat (size_cfg cfg)" and hi: "unat (size_cfg cfg) \<le> 16777214"
    using one by simp_all
  from main_success [OF p lo hi, of u] obtain t where
    m: "main args u = Inr (0, t)" and sz: "size_cfg t = 1" and tt: "totalTime t = totalTime cfg"
    using one by auto
  from completed_run [OF m] have
    ids: "map node_id (nodes t) = [0]" and
    pos: "mobility (nodes t ! 0) = Some (0, 0)" and
    f: "map fst (interfaces t) = [0]" and
    s: "map snd (interfaces t) = [0x0A000001]" and
    a: "applications t =
           [\<lparr>app_node = 0, app_protocol = ''ns3::UdpSocketFactory'', OnTime = 1, OffTime = 0,
             Remote = InetSocketAddress 0x0A000001 80,
             StartTime = Some (GetValue 1 2 u), StopTime = Some 10\<rparr>]" and
    c: "calls t = concat (map recvSink_calls (nodes t)) @
           [Simulator_Stop (totalTime t), Simulator_Run, Simulator_Destroy,
            Simulator_Stop (totalTime t), Simulator_Run, Simulator_Destroy]"
    by (simp_all add: sz)
  from ids obtain n where n: "nodes t = [n]" by (cases "nodes t") auto
  from f s have i: "interfaces t = [(0, 0x0A000001)]"
    by (cases "interfaces t") (auto simp: prod_eq_iff)
  show ?thesis using m n pos i a c tt by simp
qed

theorem single_node_run_witness:
  "\<exists>t app. main [(''size'', UintFlag 1)] 0 = Inr (0, t) \<and> length (nodes t) = 1 \<and>
     interfaces t = [(0, 0x0A000001)] \<and> applications t = [app] \<and> app_node app = 0 \<and>
     Remote app = InetSocketAddress 0x0A000001 80"
proof -
  have p: "CommandLine_Parse [(''size'', UintFlag 1)] (AodvExample_new\<lparr>rng_seed := 12345\<rparr>) =
             Inr (AodvExample_new\<lparr>rng_seed := 12345, size_cfg := 1\<rparr>)"
    by simp
  from single_node_run [OF p, of 0] show ?thesis by auto
qed

text \<open>
  The claim as stated fails for \<open>size = 1\<close>: a flow is scheduled.
\<close>

theorem single_node_flow_counterexample:
  "(case main [(''size'', UintFlag 1)] 0 of
      Inl e \<Rightarrow> False
    | Inr (code, t) \<Rightarrow> code = 0 \<and>
        applications t =
          [\<lparr>app_node = 0, app_protocol = ''ns3::UdpSocketFactory'', OnTime = 1, OffTime = 0,
            Remote = InetSocketAddress 0x0A000001 80, StartTime = Some 1, StopTime = Some 10\<rparr>])"
proof -
  have p: "CommandLine_Parse [(''size'', UintFlag 1)] (AodvExample_new\<lparr>rng_seed := 12345\<rparr>) =
             Inr (AodvExample_new\<lparr>rng_seed := 12345, size_cfg := 1\<rparr>)"
    by simp
  from main_success [OF p, of 0] show ?thesis by (auto simp: GetValue_def)
qed

text \<open>
  Claim C3, as amended. Every transmit event produces exactly one trace line; with IPv4
  socket addresses as source and destination, as the flow of this program has them, the
  line is \<open><time> source <sourceAddress> send to dest <destAddress>\<close>. Every packet
  read on a receive event produces exactly one line: \<open>AODV \<close> followed by what
  PrintReceivedRoutingPacket returns, which is
  \<open><time> <nodeId> received one packet from <sourceAddress>\<close>, or
  \<open><time> <nodeId> received one packet!\<close> when the source is not an IPv4 socket
  address. The lines are appended to the stream at once, in the order of the events.
\<close>

theorem trace_lines:
  "on_event (Transmit now (InetSocketAddress s sp) (InetSocketAddress d dp)) out =
     out @ [[Dbl now, Str '' source '', Ip s, Str '' send to dest '', Ip d]] \<and>
   length (on_event (Transmit now source dest) out) = Suc (length out) \<and>
   PrintReceivedRoutingPacket now socket (InetSocketAddress s sp) =
     [Dbl now, Str '' '', UInt (sock_node socket), Str '' received one packet from '', Ip s] \<and>
   PrintReceivedRoutingPacket now socket OtherAddress =
     [Dbl now, Str '' '', UInt (sock_node socket), Str '' received one packet!''] \<and>
   on_event (Receive now socket) out =
     out @ map (\<lambda>a. Str ''AODV '' # PrintReceivedRoutingPacket now socket a) (rx_queue socket) \<and>
   on_events es out = out @ concat (map (\<lambda>e. on_event e []) es)"
proof (intro conjI)
  show "on_event (Transmit now (InetSocketAddress s sp) (InetSocketAddress d dp)) out =
     out @ [[Dbl now, Str '' source '', Ip s, Str '' send to dest '', Ip d]]"
    by (simp add: OnOffTrace_def)
  show "length (on_event (Transmit now source dest) out) = Suc (length out)"
    by (simp add: OnOffTrace_one_line)
  show "PrintReceivedRoutingPacket now socket (InetSocketAddress s sp) =
     [Dbl now, Str '' '', UInt (sock_node socket), Str '' received one packet from '', Ip s]"
    by (simp add: PrintReceivedRoutingPacket_def)
  show "PrintReceivedRoutingPacket now socket OtherAddress =
     [Dbl now, Str '' '', UInt (sock_node socket), Str '' received one packet!'']"
    by (simp add: PrintReceivedRoutingPacket_def)
  show "on_event (Receive now socket) out =
     out @ map (\<lambda>a. Str ''AODV '' # PrintReceivedRoutingPacket now socket a) (rx_queue socket)"
    by (simp add: ReceiveRoutingPacket_lines)
  show "on_events es out = out @ concat (map (\<lambda>e. on_event e []) es)"
    by (rule on_events_appends)
qed

theorem trace_lines_witness:
  "on_events
     [Transmit 1 (InetSocketAddress 0x0A000001 49153) (InetSocketAddress 0x0A000004 80),
      Receive 2 \<lparr>sock_node = 3, sock_factory = ''ns3::UdpSocketFactory'',
                 sock_local = Some (0, 80),
                 recv_callback = Some ''AodvExample::ReceiveRoutingPacket'',
                 rx_queue = [InetSocketAddress 0x0A000001 49153]\<rparr>] [] =
   [[Dbl 1, Str '' source '', Ip 0x0A000001, Str '' send to dest '', Ip 0x0A000004],
    [Str ''AODV '', Dbl 2, Str '' '', UInt 3, Str '' received one packet from '', Ip 0x0A000001]]"
proof -
  let ?tx = "Transmit 1 (InetSocketAddress 0x0A000001 49153) (InetSocketAddress 0x0A000004 80)"
  let ?sock = "\<lparr>sock_node = 3, sock_factory = ''ns3::UdpSocketFactory'',
                 sock_local = Some (0, 80),
                 recv_callback = Some ''AodvExample::ReceiveRoutingPacket'',
                 rx_queue = [InetSocketAddress 0x0A000001 49153]\<rparr>"
  from trace_lines [of 1 "0x0A000001" 49153 "0x0A000004" 80 "[]" _ _ _ "[?tx, Receive 2 ?sock]"]
  have a: "on_events [?tx, Receive 2 ?sock] [] =
             [] @ concat (map (\<lambda>e. on_event e []) [?tx, Receive 2 ?sock])"
    and b: "on_event ?tx [] = [] @ [[Dbl 1, Str '' source '', Ip 0x0A000001, Str '' send to dest '', Ip 0x0A000004]]"
    by blast+
  from trace_lines [of 2 "0x0A000001" 49153 _ _ "[]" _ _ ?sock]
  have c: "on_event (Receive 2 ?sock) [] =
             [] @ map (\<lambda>a. Str ''AODV '' # PrintReceivedRoutingPacket 2 ?sock a) (rx_queue ?sock)"
    and d: "PrintReceivedRoutingPacket 2 ?sock (InetSocketAddress 0x0A000001 49153) =
     [Dbl 2, Str '' '', UInt (sock_node ?sock), Str '' received one packet from '', Ip 0x0A000001]"
    by blast+
  show ?thesis using a b c d by simp
qed

text \<open>
  The claim as stated fails: the line written for a received packet starts with
  \<open>AODV \<close>, which the stated form does not have.
\<close>

theorem receive_line_counterexample:
  "on_event (Receive 2 \<lparr>sock_node = 3, sock_factory = ''ns3::UdpSocketFactory'',
                 sock_local = Some (0, 80),
                 recv_callback = Some ''AodvExample::ReceiveRoutingPacket'',
                 rx_queue = [InetSocketAddress 0x0A000001 49153]\<rparr>) [] =
     [[Str ''AODV '', Dbl 2, Str '' '', UInt 3, Str '' received one packet from '', Ip 0x0A000001]] \<and>
   on_event (Receive 2 \<lparr>sock_node = 3, sock_factory = ''ns3::UdpSocketFactory'',
                 sock_local = Some (0, 80),
                 recv_callback = Some ''AodvExample::ReceiveRoutingPacket'',
                 rx_queue = [InetSocketAddress 0x0A000001 49153]\<rparr>) [] \<noteq>
     [[Dbl 2, Str '' '', UInt 3, Str '' received one packet from '', Ip 0x0A000001]]"
  by (simp add: ReceiveRoutingPacket_lines PrintReceivedRoutingPacket_def)

text \<open>
  Claim C5. In any run of the scheduler, for any actions and however long it has run, the
  fire times of the dispatched events are non-decreasing, events with equal fire times
  are dispatched in the order of their insertion, and no dispatched event has a fire time
  after the stop time. (The script passes \<open>totalTime\<close> as the stop time.)
\<close>

theorem dispatch_order:
  "sorted_wrt (\<lambda>a b. ev_time a \<le> ev_time b)
     (dispatched (run act stopTime fuel (scheduled_at_setup evs))) \<and>
   sorted_wrt (\<lambda>a b. ev_time a < ev_time b \<or> (ev_time a = ev_time b \<and> ev_seq a < ev_seq b))
     (dispatched (run act stopTime fuel (scheduled_at_setup evs))) \<and>
   (\<forall>d \<in> set (dispatched (run act stopTime fuel (scheduled_at_setup evs))).
      ev_time d \<le> stopTime)"
proof -
  let ?s = "run act stopTime fuel (scheduled_at_setup evs)"
  have "sched_inv stopTime ?s" using sched_inv_setup by (rule sched_inv_run)
  then have s: "sorted_wrt before (dispatched ?s)"
    and b: "\<forall>d \<in> set (dispatched ?s). ev_time d \<le> stopTime"
    by (simp_all add: sched_inv_def)
  have "before = (\<lambda>a b :: 'a Event. ev_time a < ev_time b \<or> (ev_time a = ev_time b \<and> ev_seq a < ev_seq b))"
    by (intro ext) (simp add: before_def)
  then show ?thesis using s b sorted_by_time [OF s] by simp
qed

theorem dispatch_order_witness:
  "map (\<lambda>e. (ev_time e, ev_seq e, ev_action e))
     (dispatched (run (\<lambda>a t. if a = ''start'' then [Schedule ''send'' 7, Schedule ''send'' 0] else [])
        100 10 (scheduled_at_setup [(''routes'', 8), (''start'', 1), (''stop'', 10), (''late'', 200)]))) =
   [(1, 1, ''start''), (1, 5, ''send''), (8, 0, ''routes''), (8, 4, ''send''), (10, 2, ''stop'')] \<and>
   sorted_wrt (\<lambda>a b. ev_time a \<le> ev_time b)
     (dispatched (run (\<lambda>a t. if a = ''start'' then [Schedule ''send'' 7, Schedule ''send'' 0] else [])
        100 10 (scheduled_at_setup [(''routes'', 8), (''start'', 1), (''stop'', 10), (''late'', 200)])))"
proof -
  have "map (\<lambda>e. (ev_time e, ev_seq e, ev_action e))
     (dispatched (run (\<lambda>a t. if a = ''start'' then [Schedule ''send'' 7, Schedule ''send'' 0] else [])
        100 10 (scheduled_at_setup [(''routes'', 8), (''start'', 1), (''stop'', 10), (''late'', 200)]))) =
   [(1, 1, ''start''), (1, 5, ''send''), (8, 0, ''routes''), (8, 4, ''send''), (10, 2, ''stop'')]"
    by (simp add: eval_nat_numeral scheduled_at_setup_def Scheduler_new_def schedule_def
          before_def cancel_def)
  then show ?thesis
    using dispatch_order [of "\<lambda>a t. if a = ''start'' then [Schedule ''send'' 7, Schedule ''send'' 0] else []"
        100 10 "[(''routes'', 8), (''start'', 1), (''stop'', 10), (''late'', 200)]"]
    by blast
qed

end
